theory Spec2Isabelle
  imports Main "HOL-Library.Word"
begin

section \<open>Q-ary search over sorted random-access ranges\<close>

text \<open>
  A shallow embedding of \<^verbatim>\<open>q_ary_search.hpp\<close>: the five search templates
  \<^verbatim>\<open>_2_ary_search\<close> ... \<^verbatim>\<open>_6_ary_search\<close>, their lower-bound, upper-bound and
  membership wrappers and their parameter structs.

  The source's identifiers start with an underscore and a digit, which an Isabelle name
  cannot; \<^verbatim>\<open>_2_ary_search\<close> is \<open>q2_ary_search\<close> here, and likewise for the others. The
  \<^verbatim>\<open>bool\<close> overload of \<^verbatim>\<open>_2_ary_search\<close> (three arguments) is \<open>q2_ary_search_bool\<close>.
\<close>

subsection \<open>Data model\<close>

text \<open>
  \<^verbatim>\<open>typedef unsigned int length_t;\<close> An \<^verbatim>\<open>unsigned int\<close> has 32 bits on the platforms
  the program is built for; arithmetic on it wraps modulo \<open>2 ^ 32\<close>.
\<close>

type_synonym length_t = "32 word"

text \<open>
  The array the iterators point into is a list \<open>mem\<close>, and a random-access iterator is an
  index into it. Reading through an iterator that does not point at an element of the
  array is undefined behaviour in the source; the model makes it a value.
\<close>

datatype fault = Out_Of_Range

text \<open>
  \<^verbatim>\<open>if ( pred( *p, q ) ) yes else no\<close>: the dereference of \<open>p\<close>, the predicate test and
  the two continuations.
\<close>

definition probe ::
  "'a list \<Rightarrow> ('a \<Rightarrow> 'b \<Rightarrow> bool) \<Rightarrow> 'b \<Rightarrow> nat \<Rightarrow> fault + 'r \<Rightarrow> fault + 'r \<Rightarrow> fault + 'r" where
  "probe mem pred q p yes no =
     (if p < length mem then (if pred (mem ! p) q then yes else no) else Inl Out_Of_Range)"

text \<open>The parameter structs, one per arity, and their global instances.\<close>

record q2_ary_search_parameters_t =
  q2_to_linear_threshold :: length_t

record q3_ary_search_parameters_t =
  q3_to_linear_threshold :: length_t

record q4_ary_search_parameters_t =
  q4_to_linear_threshold :: length_t

record q5_ary_search_parameters_t =
  q5_to_linear_threshold :: length_t

record q6_ary_search_parameters_t =
  q6_to_linear_threshold :: length_t

definition q2_ary_search_parameters :: q2_ary_search_parameters_t where
  "q2_ary_search_parameters = \<lparr> q2_to_linear_threshold = 2 * 2 \<rparr>"

definition q3_ary_search_parameters :: q3_ary_search_parameters_t where
  "q3_ary_search_parameters = \<lparr> q3_to_linear_threshold = 3 * 2 \<rparr>"

definition q4_ary_search_parameters :: q4_ary_search_parameters_t where
  "q4_ary_search_parameters = \<lparr> q4_to_linear_threshold = 4 * 2 \<rparr>"

definition q5_ary_search_parameters :: q5_ary_search_parameters_t where
  "q5_ary_search_parameters = \<lparr> q5_to_linear_threshold = 5 * 2 \<rparr>"

definition q6_ary_search_parameters :: q6_ary_search_parameters_t where
  "q6_ary_search_parameters = \<lparr> q6_to_linear_threshold = 6 * 2 \<rparr>"

subsection \<open>The linear search that ends every Q-ary search\<close>

text \<open>
  \<^verbatim>\<open>while ( begin != end && pred( *begin, q ) ) ++begin; return begin;\<close>
  The same two lines close each of the five templates.
\<close>

function linear_search ::
  "'a list \<Rightarrow> 'b \<Rightarrow> ('a \<Rightarrow> 'b \<Rightarrow> bool) \<Rightarrow> nat \<Rightarrow> nat \<Rightarrow> fault + nat" where
  "linear_search mem q pred begin end =
     (if begin \<noteq> end then
        (if begin < length mem then
           (if pred (mem ! begin) q then linear_search mem q pred (Suc begin) end
            else Inr begin)
         else Inl Out_Of_Range)
      else Inr begin)"
  by pat_completeness auto
termination
  by (relation "measure (\<lambda>(mem, q, pred, begin, end). length mem - begin)") auto

declare linear_search.simps [simp del]

subsection \<open>One pass of each narrowing loop\<close>

text \<open>
  The body of each \<^verbatim>\<open>while\<close> loop, from the window \<open>{begin, length}\<close> to the next one.
  Both ways out of the body (\<^verbatim>\<open>continue\<close> after the last fragment, and the fall through
  to \<^verbatim>\<open>length = fragment_length\<close>) give the next window.
\<close>

definition q2_ary_step ::
  "'a list \<Rightarrow> 'b \<Rightarrow> ('a \<Rightarrow> 'b \<Rightarrow> bool) \<Rightarrow> nat \<Rightarrow> length_t \<Rightarrow> fault + nat \<times> length_t" where
  "q2_ary_step mem q pred begin len =
     (let fragment_length = len div 2;
          begin_1 = begin + unat fragment_length
      in probe mem pred q begin_1
           (Inr (begin_1, len - fragment_length))
           (Inr (begin, fragment_length)))"

definition q3_ary_step ::
  "'a list \<Rightarrow> 'b \<Rightarrow> ('a \<Rightarrow> 'b \<Rightarrow> bool) \<Rightarrow> nat \<Rightarrow> length_t \<Rightarrow> fault + nat \<times> length_t" where
  "q3_ary_step mem q pred begin len =
     (let fragment_length = len div 3;
          begin_1 = begin + unat fragment_length
      in probe mem pred q begin_1
           (let begin_2 = begin_1 + unat fragment_length
            in probe mem pred q begin_2
                 (Inr (begin_2, len - 2 * fragment_length))
                 (Inr (begin_1, fragment_length)))
           (Inr (begin, fragment_length)))"

definition q4_ary_step ::
  "'a list \<Rightarrow> 'b \<Rightarrow> ('a \<Rightarrow> 'b \<Rightarrow> bool) \<Rightarrow> nat \<Rightarrow> length_t \<Rightarrow> fault + nat \<times> length_t" where
  "q4_ary_step mem q pred begin len =
     (let fragment_length = len div 4;
          begin_1 = begin + unat fragment_length
      in probe mem pred q begin_1
           (let begin_2 = begin_1 + unat fragment_length
            in probe mem pred q begin_2
                 (let begin_3 = begin_2 + unat fragment_length
                  in probe mem pred q begin_3
                       (Inr (begin_3, len - 3 * fragment_length))
                       (Inr (begin_2, fragment_length)))
                 (Inr (begin_1, fragment_length)))
           (Inr (begin, fragment_length)))"

definition q5_ary_step ::
  "'a list \<Rightarrow> 'b \<Rightarrow> ('a \<Rightarrow> 'b \<Rightarrow> bool) \<Rightarrow> nat \<Rightarrow> length_t \<Rightarrow> fault + nat \<times> length_t" where
  "q5_ary_step mem q pred begin len =
     (let fragment_length = len div 5;
          begin_1 = begin + unat fragment_length
      in probe mem pred q begin_1
           (let begin_2 = begin_1 + unat fragment_length
            in probe mem pred q begin_2
                 (let begin_3 = begin_2 + unat fragment_length
                  in probe mem pred q begin_3
                       (let begin_4 = begin_3 + unat fragment_length
                        in probe mem pred q begin_4
                             (Inr (begin_4, len - 4 * fragment_length))
                             (Inr (begin_3, fragment_length)))
                       (Inr (begin_2, fragment_length)))
                 (Inr (begin_1, fragment_length)))
           (Inr (begin, fragment_length)))"

definition q6_ary_step ::
  "'a list \<Rightarrow> 'b \<Rightarrow> ('a \<Rightarrow> 'b \<Rightarrow> bool) \<Rightarrow> nat \<Rightarrow> length_t \<Rightarrow> fault + nat \<times> length_t" where
  "q6_ary_step mem q pred begin len =
     (let fragment_length = len div 6;
          begin_1 = begin + unat fragment_length
      in probe mem pred q begin_1
           (let begin_2 = begin_1 + unat fragment_length
            in probe mem pred q begin_2
                 (let begin_3 = begin_2 + unat fragment_length
                  in probe mem pred q begin_3
                       (let begin_4 = begin_3 + unat fragment_length
                        in probe mem pred q begin_4
                             (let begin_5 = begin_4 + unat fragment_length
                              in probe mem pred q begin_5
                                   (Inr (begin_5, len - 5 * fragment_length))
                                   (Inr (begin_4, fragment_length)))
                             (Inr (begin_3, fragment_length)))
                       (Inr (begin_2, fragment_length)))
                 (Inr (begin_1, fragment_length)))
           (Inr (begin, fragment_length)))"

subsection \<open>The narrowing loops\<close>

text \<open>
  \<^verbatim>\<open>while ( length >= _Q_ary_search_parameters._to_linear_threshold ) { ... }\<close>
  The threshold is a global that can be set to any value, and for a small one the loop
  need not end: the loops are partial functions, \<open>None\<close> standing for a run that never
  leaves the loop. The result is the window the linear search starts from.
\<close>

partial_function (option) q2_ary_loop ::
  "length_t \<Rightarrow> 'a list \<Rightarrow> 'b \<Rightarrow> ('a \<Rightarrow> 'b \<Rightarrow> bool) \<Rightarrow> nat \<Rightarrow> length_t
     \<Rightarrow> (fault + nat \<times> length_t) option" where
  "q2_ary_loop threshold mem q pred begin len =
     (if len \<ge> threshold then
        (case q2_ary_step mem q pred begin len of
           Inl f \<Rightarrow> Some (Inl f)
         | Inr w \<Rightarrow> q2_ary_loop threshold mem q pred (fst w) (snd w))
      else Some (Inr (begin, len)))"

declare q2_ary_loop.simps [code]

partial_function (option) q3_ary_loop ::
  "length_t \<Rightarrow> 'a list \<Rightarrow> 'b \<Rightarrow> ('a \<Rightarrow> 'b \<Rightarrow> bool) \<Rightarrow> nat \<Rightarrow> length_t
     \<Rightarrow> (fault + nat \<times> length_t) option" where
  "q3_ary_loop threshold mem q pred begin len =
     (if len \<ge> threshold then
        (case q3_ary_step mem q pred begin len of
           Inl f \<Rightarrow> Some (Inl f)
         | Inr w \<Rightarrow> q3_ary_loop threshold mem q pred (fst w) (snd w))
      else Some (Inr (begin, len)))"

declare q3_ary_loop.simps [code]

partial_function (option) q4_ary_loop ::
  "length_t \<Rightarrow> 'a list \<Rightarrow> 'b \<Rightarrow> ('a \<Rightarrow> 'b \<Rightarrow> bool) \<Rightarrow> nat \<Rightarrow> length_t
     \<Rightarrow> (fault + nat \<times> length_t) option" where
  "q4_ary_loop threshold mem q pred begin len =
     (if len \<ge> threshold then
        (case q4_ary_step mem q pred begin len of
           Inl f \<Rightarrow> Some (Inl f)
         | Inr w \<Rightarrow> q4_ary_loop threshold mem q pred (fst w) (snd w))
      else Some (Inr (begin, len)))"

declare q4_ary_loop.simps [code]

partial_function (option) q5_ary_loop ::
  "length_t \<Rightarrow> 'a list \<Rightarrow> 'b \<Rightarrow> ('a \<Rightarrow> 'b \<Rightarrow> bool) \<Rightarrow> nat \<Rightarrow> length_t
     \<Rightarrow> (fault + nat \<times> length_t) option" where
  "q5_ary_loop threshold mem q pred begin len =
     (if len \<ge> threshold then
        (case q5_ary_step mem q pred begin len of
           Inl f \<Rightarrow> Some (Inl f)
         | Inr w \<Rightarrow> q5_ary_loop threshold mem q pred (fst w) (snd w))
      else Some (Inr (begin, len)))"

declare q5_ary_loop.simps [code]

partial_function (option) q6_ary_loop ::
  "length_t \<Rightarrow> 'a list \<Rightarrow> 'b \<Rightarrow> ('a \<Rightarrow> 'b \<Rightarrow> bool) \<Rightarrow> nat \<Rightarrow> length_t
     \<Rightarrow> (fault + nat \<times> length_t) option" where
  "q6_ary_loop threshold mem q pred begin len =
     (if len \<ge> threshold then
        (case q6_ary_step mem q pred begin len of
           Inl f \<Rightarrow> Some (Inl f)
         | Inr w \<Rightarrow> q6_ary_loop threshold mem q pred (fst w) (snd w))
      else Some (Inr (begin, len)))"

declare q6_ary_loop.simps [code]

subsection \<open>The search templates\<close>

text \<open>
  \<^verbatim>\<open>length_t length = (length_t)(end - begin);\<close> converts the iterator difference, a signed
  integer of pointer width, to \<^verbatim>\<open>unsigned int\<close>: it keeps the low 32 bits.
\<close>

definition range_length :: "nat \<Rightarrow> nat \<Rightarrow> length_t" where
  "range_length begin end = word_of_int (int end - int begin)"

text \<open>
  After the loop: \<^verbatim>\<open>end = begin + length;\<close> and the linear search on what is left.
\<close>

definition finish ::
  "'a list \<Rightarrow> 'b \<Rightarrow> ('a \<Rightarrow> 'b \<Rightarrow> bool) \<Rightarrow> (fault + nat \<times> length_t) option
     \<Rightarrow> (fault + nat) option" where
  "finish mem q pred r =
     (case r of
        None \<Rightarrow> None
      | Some (Inl f) \<Rightarrow> Some (Inl f)
      | Some (Inr w) \<Rightarrow> Some (linear_search mem q pred (fst w) (fst w + unat (snd w))))"

definition q2_ary_search ::
  "q2_ary_search_parameters_t \<Rightarrow> 'a list \<Rightarrow> nat \<Rightarrow> nat \<Rightarrow> 'b \<Rightarrow> ('a \<Rightarrow> 'b \<Rightarrow> bool)
     \<Rightarrow> (fault + nat) option" where
  "q2_ary_search P mem begin end q pred =
     finish mem q pred
       (q2_ary_loop (q2_to_linear_threshold P) mem q pred begin (range_length begin end))"

definition q3_ary_search ::
  "q3_ary_search_parameters_t \<Rightarrow> 'a list \<Rightarrow> nat \<Rightarrow> nat \<Rightarrow> 'b \<Rightarrow> ('a \<Rightarrow> 'b \<Rightarrow> bool)
     \<Rightarrow> (fault + nat) option" where
  "q3_ary_search P mem begin end q pred =
     finish mem q pred
       (q3_ary_loop (q3_to_linear_threshold P) mem q pred begin (range_length begin end))"

definition q4_ary_search ::
  "q4_ary_search_parameters_t \<Rightarrow> 'a list \<Rightarrow> nat \<Rightarrow> nat \<Rightarrow> 'b \<Rightarrow> ('a \<Rightarrow> 'b \<Rightarrow> bool)
     \<Rightarrow> (fault + nat) option" where
  "q4_ary_search P mem begin end q pred =
     finish mem q pred
       (q4_ary_loop (q4_to_linear_threshold P) mem q pred begin (range_length begin end))"

definition q5_ary_search ::
  "q5_ary_search_parameters_t \<Rightarrow> 'a list \<Rightarrow> nat \<Rightarrow> nat \<Rightarrow> 'b \<Rightarrow> ('a \<Rightarrow> 'b \<Rightarrow> bool)
     \<Rightarrow> (fault + nat) option" where
  "q5_ary_search P mem begin end q pred =
     finish mem q pred
       (q5_ary_loop (q5_to_linear_threshold P) mem q pred begin (range_length begin end))"

definition q6_ary_search ::
  "q6_ary_search_parameters_t \<Rightarrow> 'a list \<Rightarrow> nat \<Rightarrow> nat \<Rightarrow> 'b \<Rightarrow> ('a \<Rightarrow> 'b \<Rightarrow> bool)
     \<Rightarrow> (fault + nat) option" where
  "q6_ary_search P mem begin end q pred =
     finish mem q pred
       (q6_ary_loop (q6_to_linear_threshold P) mem q pred begin (range_length begin end))"

subsection \<open>Lower bound, upper bound and membership\<close>

text \<open>
  The wrappers pass \<^verbatim>\<open>std::less\<close> and \<^verbatim>\<open>std::less_equal\<close> as the predicate. The
  membership overload ends with \<^verbatim>\<open>return result != end && ! (q < *result);\<close>, which
  reads \<^verbatim>\<open>*result\<close> only when \<^verbatim>\<open>result != end\<close>.
\<close>

definition found ::
  "('a::ord) list \<Rightarrow> nat \<Rightarrow> 'a \<Rightarrow> (fault + nat) option \<Rightarrow> (fault + bool) option" where
  "found mem end q r =
     (case r of
        None \<Rightarrow> None
      | Some (Inl f) \<Rightarrow> Some (Inl f)
      | Some (Inr result) \<Rightarrow>
          Some (if result \<noteq> end then
                  (if result < length mem then Inr (\<not> q < mem ! result)
                   else Inl Out_Of_Range)
                else Inr False))"

definition q2_ary_lower_bound ::
  "q2_ary_search_parameters_t \<Rightarrow> ('a::ord) list \<Rightarrow> nat \<Rightarrow> nat \<Rightarrow> 'a \<Rightarrow> (fault + nat) option" where
  "q2_ary_lower_bound P mem begin end q = q2_ary_search P mem begin end q (\<lambda>x y. x < y)"

definition q2_ary_upper_bound ::
  "q2_ary_search_parameters_t \<Rightarrow> ('a::ord) list \<Rightarrow> nat \<Rightarrow> nat \<Rightarrow> 'a \<Rightarrow> (fault + nat) option" where
  "q2_ary_upper_bound P mem begin end q = q2_ary_search P mem begin end q (\<lambda>x y. x \<le> y)"

definition q2_ary_search_bool ::
  "q2_ary_search_parameters_t \<Rightarrow> ('a::ord) list \<Rightarrow> nat \<Rightarrow> nat \<Rightarrow> 'a \<Rightarrow> (fault + bool) option" where
  "q2_ary_search_bool P mem begin end q =
     found mem end q (q2_ary_search P mem begin end q (\<lambda>x y. x < y))"

definition q3_ary_lower_bound ::
  "q3_ary_search_parameters_t \<Rightarrow> ('a::ord) list \<Rightarrow> nat \<Rightarrow> nat \<Rightarrow> 'a \<Rightarrow> (fault + nat) option" where
  "q3_ary_lower_bound P mem begin end q = q3_ary_search P mem begin end q (\<lambda>x y. x < y)"

definition q3_ary_upper_bound ::
  "q3_ary_search_parameters_t \<Rightarrow> ('a::ord) list \<Rightarrow> nat \<Rightarrow> nat \<Rightarrow> 'a \<Rightarrow> (fault + nat) option" where
  "q3_ary_upper_bound P mem begin end q = q3_ary_search P mem begin end q (\<lambda>x y. x \<le> y)"

definition q3_ary_search_bool ::
  "q3_ary_search_parameters_t \<Rightarrow> ('a::ord) list \<Rightarrow> nat \<Rightarrow> nat \<Rightarrow> 'a \<Rightarrow> (fault + bool) option" where
  "q3_ary_search_bool P mem begin end q =
     found mem end q (q3_ary_search P mem begin end q (\<lambda>x y. x < y))"

definition q4_ary_lower_bound ::
  "q4_ary_search_parameters_t \<Rightarrow> ('a::ord) list \<Rightarrow> nat \<Rightarrow> nat \<Rightarrow> 'a \<Rightarrow> (fault + nat) option" where
  "q4_ary_lower_bound P mem begin end q = q4_ary_search P mem begin end q (\<lambda>x y. x < y)"

definition q4_ary_upper_bound ::
  "q4_ary_search_parameters_t \<Rightarrow> ('a::ord) list \<Rightarrow> nat \<Rightarrow> nat \<Rightarrow> 'a \<Rightarrow> (fault + nat) option" where
  "q4_ary_upper_bound P mem begin end q = q4_ary_search P mem begin end q (\<lambda>x y. x \<le> y)"

definition q4_ary_search_bool ::
  "q4_ary_search_parameters_t \<Rightarrow> ('a::ord) list \<Rightarrow> nat \<Rightarrow> nat \<Rightarrow> 'a \<Rightarrow> (fault + bool) option" where
  "q4_ary_search_bool P mem begin end q =
     found mem end q (q4_ary_search P mem begin end q (\<lambda>x y. x < y))"

definition q5_ary_lower_bound ::
  "q5_ary_search_parameters_t \<Rightarrow> ('a::ord) list \<Rightarrow> nat \<Rightarrow> nat \<Rightarrow> 'a \<Rightarrow> (fault + nat) option" where
  "q5_ary_lower_bound P mem begin end q = q5_ary_search P mem begin end q (\<lambda>x y. x < y)"

definition q5_ary_upper_bound ::
  "q5_ary_search_parameters_t \<Rightarrow> ('a::ord) list \<Rightarrow> nat \<Rightarrow> nat \<Rightarrow> 'a \<Rightarrow> (fault + nat) option" where
  "q5_ary_upper_bound P mem begin end q = q5_ary_search P mem begin end q (\<lambda>x y. x \<le> y)"

definition q5_ary_search_bool ::
  "q5_ary_search_parameters_t \<Rightarrow> ('a::ord) list \<Rightarrow> nat \<Rightarrow> nat \<Rightarrow> 'a \<Rightarrow> (fault + bool) option" where
  "q5_ary_search_bool P mem begin end q =
     found mem end q (q5_ary_search P mem begin end q (\<lambda>x y. x < y))"

definition q6_ary_lower_bound ::
  "q6_ary_search_parameters_t \<Rightarrow> ('a::ord) list \<Rightarrow> nat \<Rightarrow> nat \<Rightarrow> 'a \<Rightarrow> (fault + nat) option" where
  "q6_ary_lower_bound P mem begin end q = q6_ary_search P mem begin end q (\<lambda>x y. x < y)"

definition q6_ary_upper_bound ::
  "q6_ary_search_parameters_t \<Rightarrow> ('a::ord) list \<Rightarrow> nat \<Rightarrow> nat \<Rightarrow> 'a \<Rightarrow> (fault + nat) option" where
  "q6_ary_upper_bound P mem begin end q = q6_ary_search P mem begin end q (\<lambda>x y. x \<le> y)"

definition q6_ary_search_bool ::
  "q6_ary_search_parameters_t \<Rightarrow> ('a::ord) list \<Rightarrow> nat \<Rightarrow> nat \<Rightarrow> 'a \<Rightarrow> (fault + bool) option" where
  "q6_ary_search_bool P mem begin end q =
     found mem end q (q6_ary_search P mem begin end q (\<lambda>x y. x < y))"

subsection \<open>Vocabulary of the properties\<close>

text \<open>The elements of the range \<open>[begin, end)\<close>, in order.\<close>

definition slice :: "'a list \<Rightarrow> nat \<Rightarrow> nat \<Rightarrow> 'a list" where
  "slice mem begin end = take (end - begin) (drop begin mem)"

text \<open>
  A predicate that orders the elements: irreflexive, transitive, and with a transitive
  incomparability.
\<close>

definition strict_weak_order :: "('a \<Rightarrow> 'a \<Rightarrow> bool) \<Rightarrow> bool" where
  "strict_weak_order pred \<longleftrightarrow>
     (\<forall>x. \<not> pred x x) \<and>
     (\<forall>x y z. pred x y \<and> pred y z \<longrightarrow> pred x z) \<and>
     (\<forall>x y z. \<not> pred x y \<and> \<not> pred y x \<and> \<not> pred y z \<and> \<not> pred z y
                \<longrightarrow> \<not> pred x z \<and> \<not> pred z x)"

text \<open>Sorted with respect to \<open>pred\<close>: no element is ordered before an earlier one.\<close>

definition sorted_by :: "('a \<Rightarrow> 'a \<Rightarrow> bool) \<Rightarrow> 'a list \<Rightarrow> bool" where
  "sorted_by pred xs = sorted_wrt (\<lambda>x y. \<not> pred y x) xs"

text \<open>
  What the searches need of the range: once the test against \<open>q\<close> fails at a position
  of \<open>[b, e)\<close> it fails at every later one.
\<close>

definition partitioned :: "'a list \<Rightarrow> ('a \<Rightarrow> 'b \<Rightarrow> bool) \<Rightarrow> 'b \<Rightarrow> nat \<Rightarrow> nat \<Rightarrow> bool" where
  "partitioned mem pred q b e \<longleftrightarrow>
     (\<forall>i j. b \<le> i \<and> i \<le> j \<and> j < e \<and> pred (mem ! j) q \<longrightarrow> pred (mem ! i) q)"

text \<open>
  \<open>r\<close> is the first position of \<open>[b, e)\<close> at which the test against \<open>q\<close> fails, and
  \<open>e\<close> when it fails nowhere.
\<close>

definition partition_point ::
  "'a list \<Rightarrow> ('a \<Rightarrow> 'b \<Rightarrow> bool) \<Rightarrow> 'b \<Rightarrow> nat \<Rightarrow> nat \<Rightarrow> nat \<Rightarrow> bool" where
  "partition_point mem pred q b e r \<longleftrightarrow>
     b \<le> r \<and> r \<le> e \<and> (\<forall>i\<in>{b..<r}. pred (mem ! i) q) \<and> (r < e \<longrightarrow> \<not> pred (mem ! r) q)"

text \<open>
  The reference the searches are compared with, in the words of the specification: the
  lower bound is the first position whose element is not less than the query, the upper
  bound the first position whose element is strictly greater than the query, and the end
  of the range when there is no such position.
\<close>

definition ref_lower_bound :: "('a::ord) list \<Rightarrow> nat \<Rightarrow> nat \<Rightarrow> 'a \<Rightarrow> nat" where
  "ref_lower_bound mem begin end v =
     (case find (\<lambda>p. \<not> mem ! p < v) [begin..<end] of Some p \<Rightarrow> p | None \<Rightarrow> end)"

definition ref_upper_bound :: "('a::ord) list \<Rightarrow> nat \<Rightarrow> nat \<Rightarrow> 'a \<Rightarrow> nat" where
  "ref_upper_bound mem begin end v =
     (case find (\<lambda>p. v < mem ! p) [begin..<end] of Some p \<Rightarrow> p | None \<Rightarrow> end)"

text \<open>
  The probes of one pass over the window \<open>{b, len}\<close> with \<open>Q\<close> fragments are at
  \<open>b + k * (len div Q)\<close> for \<open>k = 1, ..., Q - 1\<close>. The \<open>k\<close>-th is the first to fail:
\<close>

definition first_failing_probe ::
  "nat \<Rightarrow> 'a list \<Rightarrow> ('a \<Rightarrow> 'b \<Rightarrow> bool) \<Rightarrow> 'b \<Rightarrow> nat \<Rightarrow> length_t \<Rightarrow> nat \<Rightarrow> bool" where
  "first_failing_probe Q mem pred q b len k \<longleftrightarrow>
     1 \<le> k \<and> k < Q \<and> b + k * unat (len div of_nat Q) < length mem \<and>
     (\<forall>j\<in>set [1..<k]. pred (mem ! (b + j * unat (len div of_nat Q))) q) \<and>
     \<not> pred (mem ! (b + k * unat (len div of_nat Q))) q"

text \<open>All \<open>Q - 1\<close> probes are inside the array and pass:\<close>

definition all_probes_pass ::
  "nat \<Rightarrow> 'a list \<Rightarrow> ('a \<Rightarrow> 'b \<Rightarrow> bool) \<Rightarrow> 'b \<Rightarrow> nat \<Rightarrow> length_t \<Rightarrow> bool" where
  "all_probes_pass Q mem pred q b len \<longleftrightarrow>
     (\<forall>k\<in>set [1..<Q]. b + k * unat (len div of_nat Q) < length mem \<and>
                       pred (mem ! (b + k * unat (len div of_nat Q))) q)"

subsection \<open>The five cascades as one\<close>

text \<open>
  The five loop bodies are one cascade of probes, unrolled for \<open>Q = 2, ..., 6\<close>. The
  cascade below has \<open>n\<close> probes left after \<open>k\<close> have passed and stands at \<open>p\<close>; the
  lemmas \<open>q2_ary_step_cascade\<close> ... \<open>q6_ary_step_cascade\<close> show that each body is this
  cascade, so that the properties are proved once.
\<close>

fun cascade ::
  "'a list \<Rightarrow> 'b \<Rightarrow> ('a \<Rightarrow> 'b \<Rightarrow> bool) \<Rightarrow> length_t \<Rightarrow> length_t \<Rightarrow> nat \<Rightarrow> nat \<Rightarrow> nat
     \<Rightarrow> fault + nat \<times> length_t" where
  "cascade mem q pred fl len 0 k p = Inr (p, len - of_nat k * fl)"
| "cascade mem q pred fl len (Suc n) k p =
     probe mem pred q (p + unat fl)
       (cascade mem q pred fl len n (Suc k) (p + unat fl))
       (Inr (p, fl))"

definition q_ary_step ::
  "nat \<Rightarrow> 'a list \<Rightarrow> 'b \<Rightarrow> ('a \<Rightarrow> 'b \<Rightarrow> bool) \<Rightarrow> nat \<Rightarrow> length_t \<Rightarrow> fault + nat \<times> length_t" where
  "q_ary_step Q mem q pred b len = cascade mem q pred (len div of_nat Q) len (Q - 1) 0 b"

text \<open>
  The invariant of the narrowing loops, for a search that starts on \<open>[b0, e0)\<close>: the
  window stays inside, the test fails just behind the window unless the window ends at
  \<open>e0\<close>, and, when \<open>G\<close> says that the range is partitioned, the test passes everywhere
  before the window.
\<close>

definition window_inv ::
  "bool \<Rightarrow> 'a list \<Rightarrow> ('a \<Rightarrow> 'b \<Rightarrow> bool) \<Rightarrow> 'b \<Rightarrow> nat \<Rightarrow> nat \<Rightarrow> nat \<Rightarrow> length_t \<Rightarrow> bool" where
  "window_inv G mem pred q b0 e0 b len \<longleftrightarrow>
     b0 \<le> b \<and> b + unat len \<le> e0 \<and>
     (G \<longrightarrow> partitioned mem pred q b0 e0 \<and> (\<forall>i. b0 \<le> i \<and> i < b \<longrightarrow> pred (mem ! i) q)) \<and>
     (b + unat len < e0 \<longrightarrow> \<not> pred (mem ! (b + unat len)) q)"

subsection \<open>The arrays of the test suite\<close>

text \<open>
  The arrays that \<^verbatim>\<open>test_search_on_sorted_int_array\<close> of \<^verbatim>\<open>main.cpp\<close> searches: the
  ordinary, the fragmented and the constant sequence.
\<close>

definition ordinary_sequence :: "int list" where
  "ordinary_sequence = [2, 4, 6, 7, 12, 13, 16, 19, 23, 24, 27, 32, 36]"

definition fragmented_sequence :: "int list" where
  "fragmented_sequence = [3, 3, 3, 7, 7, 7, 7, 12, 12, 16, 16, 16, 16]"

definition constant_sequence :: "int list" where
  "constant_sequence = [4, 4, 4, 4, 4, 4, 4, 4, 4]"

text \<open>
  \<^verbatim>\<open>test_search_on_sorted_int_array\<close>: its assertions, on a search function that takes
  the array, the two positions and the query. The empty sequence is the null pointer with
  length 0.
\<close>

definition test_search_on_sorted_int_array ::
  "(int list \<Rightarrow> nat \<Rightarrow> nat \<Rightarrow> int \<Rightarrow> (fault + nat) option) \<Rightarrow> bool" where
  "test_search_on_sorted_int_array search_f \<longleftrightarrow>
     search_f ordinary_sequence 0 13 19 = Some (Inr 7) \<and>
     search_f ordinary_sequence 0 13 36 = Some (Inr 12) \<and>
     search_f ordinary_sequence 0 13 6 = Some (Inr 2) \<and>
     search_f ordinary_sequence 0 13 20 = Some (Inr 8) \<and>
     search_f ordinary_sequence 0 13 8 = Some (Inr 4) \<and>
     search_f ordinary_sequence 0 13 1 = Some (Inr 0) \<and>
     search_f ordinary_sequence 0 13 42 = Some (Inr 13) \<and>
     search_f fragmented_sequence 0 13 7 = Some (Inr 3) \<and>
     search_f fragmented_sequence 0 13 8 = Some (Inr 7) \<and>
     search_f fragmented_sequence 0 13 2 = Some (Inr 0) \<and>
     search_f fragmented_sequence 0 13 20 = Some (Inr 13) \<and>
     search_f fragmented_sequence 0 13 15 = Some (Inr 9) \<and>
     search_f constant_sequence 0 9 4 = Some (Inr 0) \<and>
     search_f constant_sequence 0 9 5 = Some (Inr 9) \<and>
     search_f [] 0 0 6 = Some (Inr 0) \<and>
     search_f [] 0 0 12 = Some (Inr 0)"

section \<open>Proofs\<close>

subsection \<open>Arithmetic of window lengths\<close>

lemma unat_last_fragment:
  fixes fl len :: length_t
  assumes "k * unat fl \<le> unat len"
  shows "unat (len - of_nat k * fl) = unat len - k * unat fl"
proof -
  have lt: "k * unat fl < 2 ^ 32"
    using assms unsigned_less [of len, where ?'a = nat] by simp
  have "unat (of_nat k * fl :: length_t) = k * unat fl"
    using lt by (simp add: unat_word_ariths unat_of_nat mod_mult_left_eq)
  moreover from this assms have "of_nat k * fl \<le> len"
    by (simp add: word_le_nat_alt)
  ultimately show ?thesis
    by (simp add: unat_sub)
qed

lemma unat_fragment_length:
  fixes len :: length_t
  assumes "Q < 2 ^ 32"
  shows "unat (len div of_nat Q) = unat len div Q"
  using assms by (simp add: unat_div unat_of_nat take_bit_nat_eq_self_iff)

subsection \<open>The cascade and its window\<close>

text \<open>The cascade never leaves the window and always shrinks it.\<close>

lemma cascade_window:
  fixes fl len :: length_t
  assumes "0 < unat fl"
    and "(k + n + 1) * unat fl \<le> unat len"
    and "0 < k + n"
    and "cascade mem q pred fl len n k p = Inr (p', len')"
  shows "p \<le> p' \<and> p' + unat len' + k * unat fl \<le> p + unat len \<and> unat len' < unat len"
  using assms
proof (induction n arbitrary: k p)
  case 0
  then have "k * unat fl \<le> unat len" by simp
  from unat_last_fragment [OF this] 0 show ?case by auto
next
  case (Suc n)
  have fl_lt: "unat fl < unat len"
  proof -
    have "2 * unat fl \<le> (k + Suc n + 1) * unat fl" by (rule mult_le_mono1) simp
    with Suc.prems(1,2) show ?thesis by linarith
  qed
  show ?case
  proof (cases "p + unat fl < length mem \<and> pred (mem ! (p + unat fl)) q")
    case True
    with Suc.prems(4) have c: "cascade mem q pred fl len n (Suc k) (p + unat fl) = Inr (p', len')"
      by (simp add: probe_def)
    have "(Suc k + n + 1) * unat fl \<le> unat len" using Suc.prems(2) by simp
    from Suc.IH [OF Suc.prems(1) this _ c]
    show ?thesis by (simp add: algebra_simps)
  next
    case False
    with Suc.prems(4) have "p' = p" "len' = fl"
      by (auto simp: probe_def split: if_splits)
    moreover have "unat fl + k * unat fl \<le> (k + Suc n + 1) * unat fl"
      by (simp add: algebra_simps)
    ultimately show ?thesis using fl_lt Suc.prems(2) by simp
  qed
qed

lemma cascade_no_fault:
  fixes fl len :: length_t
  assumes "p + n * unat fl < length mem \<or> n = 0"
  shows "\<exists>w. cascade mem q pred fl len n k p = Inr w"
  using assms
proof (induction n arbitrary: k p)
  case 0
  show ?case by simp
next
  case (Suc n)
  then have inb: "p + unat fl < length mem" 
    by (simp add: algebra_simps)
  have "p + unat fl + n * unat fl < length mem \<or> n = 0"
    using Suc.prems by (simp add: algebra_simps)
  from Suc.IH [OF this, of "Suc k"] inb show ?case
    by (auto simp: probe_def)
qed

lemma partitionedD:
  "partitioned mem pred q b e \<Longrightarrow> b \<le> i \<Longrightarrow> i \<le> j \<Longrightarrow> j < e \<Longrightarrow> pred (mem ! j) q \<Longrightarrow> pred (mem ! i) q"
  unfolding partitioned_def by blast

lemma cascade_boundary:
  fixes fl len :: length_t
  assumes "0 < unat fl"
    and "(k + n + 1) * unat fl \<le> unat len"
    and "p + unat len = E + k * unat fl"
    and "E \<le> e0"
    and "b0 \<le> p"
    and "G \<longrightarrow> partitioned mem pred q b0 e0 \<and> (\<forall>i. b0 \<le> i \<and> i < p \<longrightarrow> pred (mem ! i) q)"
    and "E < e0 \<longrightarrow> \<not> pred (mem ! E) q"
    and "cascade mem q pred fl len n k p = Inr (p', len')"
  shows "(G \<longrightarrow> (\<forall>i. b0 \<le> i \<and> i < p' \<longrightarrow> pred (mem ! i) q)) \<and>
         (p' + unat len' < e0 \<longrightarrow> \<not> pred (mem ! (p' + unat len')) q)"
  using assms
proof (induction n arbitrary: k p)
  case 0
  then have "k * unat fl \<le> unat len" by simp
  from unat_last_fragment [OF this] 0 show ?case by auto
next
  case (Suc n)
  have "(k + 2) * unat fl \<le> (k + Suc n + 1) * unat fl" by (rule mult_le_mono1) simp
  with Suc.prems(2) have "k * unat fl + 2 * unat fl \<le> unat len" by (simp add: algebra_simps)
  with Suc.prems(1,3) have inside: "p + unat fl < E" by linarith
  show ?case
  proof (cases "p + unat fl < length mem \<and> pred (mem ! (p + unat fl)) q")
    case True
    with Suc.prems(8) have c: "cascade mem q pred fl len n (Suc k) (p + unat fl) = Inr (p', len')"
      by (simp add: probe_def)
    have 1: "(Suc k + n + 1) * unat fl \<le> unat len" using Suc.prems(2) by simp
    have 2: "p + unat fl + unat len = E + Suc k * unat fl" using Suc.prems(3) by simp
    have 3: "b0 \<le> p + unat fl" using Suc.prems(5) by simp
    have 4: "G \<longrightarrow> partitioned mem pred q b0 e0 \<and>
               (\<forall>i. b0 \<le> i \<and> i < p + unat fl \<longrightarrow> pred (mem ! i) q)"
    proof (intro impI conjI allI)
      assume G
      with Suc.prems(6) show part: "partitioned mem pred q b0 e0" by simp
      fix i assume "b0 \<le> i \<and> i < p + unat fl"
      then show "pred (mem ! i) q"
        using partitionedD [OF part, of i "p + unat fl"] True inside Suc.prems(4) by simp
    qed
    from Suc.IH [OF Suc.prems(1) 1 2 Suc.prems(4) 3 4 Suc.prems(7) c]
    show ?thesis .
  next
    case False
    with Suc.prems(8) have "p' = p" "len' = fl" "\<not> pred (mem ! (p + unat fl)) q"
      by (auto simp: probe_def split: if_splits)
    then show ?thesis using Suc.prems(6) by simp
  qed
qed

subsection \<open>The linear search\<close>

lemma linear_search_boundary:
  assumes "b \<le> e" and "e \<le> length mem"
  shows "\<exists>r. linear_search mem q pred b e = Inr r \<and> b \<le> r \<and> r \<le> e \<and>
             (\<forall>i. b \<le> i \<and> i < r \<longrightarrow> pred (mem ! i) q) \<and>
             (r < e \<longrightarrow> \<not> pred (mem ! r) q)"
  using assms
proof (induction mem q pred b e rule: linear_search.induct)
  case (1 mem q pred b e)
  show ?case
  proof (cases "b \<noteq> e \<and> pred (mem ! b) q")
    case True
    with "1.prems" have lt: "b < length mem" "Suc b \<le> e" by auto
    from "1.IH" [OF _ lt(1) _ lt(2) "1.prems"(2)] True
    obtain r where r: "linear_search mem q pred (Suc b) e = Inr r" "Suc b \<le> r" "r \<le> e"
      "\<forall>i. Suc b \<le> i \<and> i < r \<longrightarrow> pred (mem ! i) q" "r < e \<longrightarrow> \<not> pred (mem ! r) q"
      by auto
    have "\<forall>i. b \<le> i \<and> i < r \<longrightarrow> pred (mem ! i) q"
    proof (intro allI impI)
      fix i assume "b \<le> i \<and> i < r"
      then show "pred (mem ! i) q" using r(4) True by (cases "i = b") auto
    qed
    with r True lt show ?thesis
      by (subst linear_search.simps) auto
  next
    case False
    with "1.prems" show ?thesis
      by (subst linear_search.simps) auto
  qed
qed


subsection \<open>Loops that satisfy the unfolding equation of the narrowing loops\<close>

text \<open>
  The five loops differ in their body only. What is proved of them is proved of any
  function \<open>L\<close> that satisfies their unfolding equation, by induction on the length of
  the window, which every pass shortens when the threshold is at least the arity.
\<close>

lemma narrowing_loop_terminates:
  fixes L :: "nat \<Rightarrow> length_t \<Rightarrow> (fault + nat \<times> length_t) option"
  assumes eq: "\<And>b len. L b len =
      (if thr \<le> len then
         (case step b len of Inl f \<Rightarrow> Some (Inl f) | Inr w \<Rightarrow> L (fst w) (snd w))
       else Some (Inr (b, len)))"
    and step: "\<And>b len w. thr \<le> len \<Longrightarrow> step b len = Inr w \<Longrightarrow> unat (snd w) < unat len"
  shows "\<exists>r. L b len = Some r"
proof (induction "unat len" arbitrary: b len rule: less_induct)
  case less
  show ?case
  proof (cases "thr \<le> len")
    case False
    then show ?thesis by (subst eq) simp
  next
    case True
    show ?thesis
    proof (cases "step b len")
      case (Inl f)
      with True show ?thesis by (subst eq) simp
    next
      case (Inr w)
      from less.hyps [OF step [OF True Inr]] True Inr show ?thesis
        by (subst eq) simp
    qed
  qed
qed

lemma narrowing_loop_invariant:
  fixes L :: "nat \<Rightarrow> length_t \<Rightarrow> (fault + nat \<times> length_t) option"
  assumes eq: "\<And>b len. L b len =
      (if thr \<le> len then
         (case step b len of Inl f \<Rightarrow> Some (Inl f) | Inr w \<Rightarrow> L (fst w) (snd w))
       else Some (Inr (b, len)))"
    and step: "\<And>b len. thr \<le> len \<Longrightarrow> I b len \<Longrightarrow>
                 \<exists>w. step b len = Inr w \<and> I (fst w) (snd w) \<and> unat (snd w) < unat len"
    and "I b len"
  shows "\<exists>w. L b len = Some (Inr w) \<and> I (fst w) (snd w) \<and> snd w < thr"
  using assms(3)
proof (induction "unat len" arbitrary: b len rule: less_induct)
  case less
  show ?case
  proof (cases "thr \<le> len")
    case False
    with less.prems show ?thesis by (subst eq) auto
  next
    case True
    from step [OF True less.prems]
    obtain w where w: "step b len = Inr w" "I (fst w) (snd w)" "unat (snd w) < unat len"
      by blast
    from less.hyps [OF w(3) w(2)] True w(1) show ?thesis
      by (subst eq) simp
  qed
qed

subsection \<open>The length of the range\<close>

lemma unat_range_length:
  assumes "b \<le> e"
  shows "unat (range_length b e) = (e - b) mod 2 ^ 32"
proof -
  have "int e - int b = int (e - b)" using assms by (simp only: of_nat_diff)
  then have "range_length b e = word_of_nat (e - b)"
    by (simp only: range_length_def of_int_of_nat_eq)
  then show ?thesis by (simp only: unat_of_nat) simp
qed

lemma range_length_le:
  assumes "b \<le> e"
  shows "b + unat (range_length b e) \<le> e"
proof -
  have "(e - b) mod 2 ^ 32 \<le> e - b" by (rule mod_less_eq_dividend)
  with assms show ?thesis by (simp add: unat_range_length)
qed

lemma range_length_exact:
  assumes "b \<le> e" and "e - b < 2 ^ 32"
  shows "b + unat (range_length b e) = e"
  using assms by (simp add: unat_range_length)

subsection \<open>One pass of the loop, for any arity\<close>

lemma q_ary_step_facts:
  fixes len thr :: length_t
  assumes "2 \<le> Q" and "Q \<le> unat thr" and "thr \<le> len"
  shows "unat (len div of_nat Q) = unat len div Q"
    and "0 < unat (len div of_nat Q)"
    and "(0 + (Q - 1) + 1) * unat (len div of_nat Q) \<le> unat len"
    and "0 < 0 + (Q - 1)"
proof -
  have "unat thr < 2 ^ 32" using unsigned_less [of thr, where ?'a = nat] by simp
  with assms(2) have Q: "Q < 2 ^ 32" by simp
  show fl: "unat (len div of_nat Q) = unat len div Q"
    by (rule unat_fragment_length [OF Q])
  have "Q \<le> unat len" using assms(2,3) by (simp add: word_le_nat_alt)
  then show "0 < unat (len div of_nat Q)"
    using assms(1) by (simp add: fl div_greater_zero_iff)
  show "(0 + (Q - 1) + 1) * unat (len div of_nat Q) \<le> unat len"
    using assms(1) by (simp add: fl)
  show "0 < 0 + (Q - 1)" using assms(1) by simp
qed

lemma q_ary_step_window:
  fixes len thr :: length_t
  assumes "2 \<le> Q" and "Q \<le> unat thr" and "thr \<le> len"
    and "q_ary_step Q mem q pred b len = Inr w"
  shows "b \<le> fst w \<and> fst w + unat (snd w) \<le> b + unat len \<and> unat (snd w) < unat len"
proof -
  from assms(4) have c: "cascade mem q pred (len div of_nat Q) len (Q - 1) 0 b = Inr (fst w, snd w)"
    by (simp add: q_ary_step_def)
  from cascade_window [OF q_ary_step_facts(2-4) [OF assms(1-3)] c]
  show ?thesis by simp
qed

lemma q_ary_step_no_fault:
  fixes len thr :: length_t
  assumes "2 \<le> Q" and "Q \<le> unat thr" and "thr \<le> len"
    and "b + unat len \<le> length mem"
  shows "\<exists>w. q_ary_step Q mem q pred b len = Inr w"
proof -
  let ?f = "unat (len div of_nat Q)"
  note f = q_ary_step_facts [OF assms(1-3)]
  have "(Q - 1) * ?f + ?f \<le> unat len" using f(3) by (simp add: algebra_simps)
  with f(2) assms(4) have "b + (Q - 1) * ?f < length mem" by linarith
  then show ?thesis
    unfolding q_ary_step_def by (intro cascade_no_fault) simp
qed

lemma q_ary_step_boundary:
  fixes len thr :: length_t
  assumes "2 \<le> Q" and "Q \<le> unat thr" and "thr \<le> len"
    and "b + unat len \<le> e0"
    and "b0 \<le> b"
    and "G \<longrightarrow> partitioned mem pred q b0 e0 \<and> (\<forall>i. b0 \<le> i \<and> i < b \<longrightarrow> pred (mem ! i) q)"
    and "b + unat len < e0 \<longrightarrow> \<not> pred (mem ! (b + unat len)) q"
    and "q_ary_step Q mem q pred b len = Inr w"
  shows "(G \<longrightarrow> (\<forall>i. b0 \<le> i \<and> i < fst w \<longrightarrow> pred (mem ! i) q)) \<and>
         (fst w + unat (snd w) < e0 \<longrightarrow> \<not> pred (mem ! (fst w + unat (snd w))) q)"
proof -
  from assms(8) have c: "cascade mem q pred (len div of_nat Q) len (Q - 1) 0 b = Inr (fst w, snd w)"
    by (simp add: q_ary_step_def)
  note f = q_ary_step_facts [OF assms(1-3)]
  have E: "b + unat len = (b + unat len) + 0 * unat (len div of_nat Q)" by simp
  from cascade_boundary [OF f(2) f(3) E assms(4,5,6,7) c]
  show ?thesis .
qed

lemma q_ary_step_inv:
  fixes len thr :: length_t
  assumes Q: "2 \<le> Q" "Q \<le> unat thr" and thr: "thr \<le> len"
    and e0: "e0 \<le> length mem"
    and inv: "window_inv G mem pred q b0 e0 b len"
  shows "\<exists>w. q_ary_step Q mem q pred b len = Inr w \<and>
             window_inv G mem pred q b0 e0 (fst w) (snd w) \<and> unat (snd w) < unat len"
proof -
  from inv have i: "b0 \<le> b" "b + unat len \<le> e0"
    "G \<longrightarrow> partitioned mem pred q b0 e0 \<and> (\<forall>i. b0 \<le> i \<and> i < b \<longrightarrow> pred (mem ! i) q)"
    "b + unat len < e0 \<longrightarrow> \<not> pred (mem ! (b + unat len)) q"
    by (simp_all add: window_inv_def)
  from i(2) e0 have "b + unat len \<le> length mem" by simp
  from q_ary_step_no_fault [OF Q thr this, where q = q and pred = pred]
  obtain w where w: "q_ary_step Q mem q pred b len = Inr w" by blast
  note win = q_ary_step_window [OF Q thr w]
  note bnd = q_ary_step_boundary [OF Q thr i(2,1,3,4) w]
  have "window_inv G mem pred q b0 e0 (fst w) (snd w)"
    unfolding window_inv_def using win bnd i by auto
  with w win show ?thesis by blast
qed

subsection \<open>The search, for any arity\<close>

lemma q_ary_search_rule:
  fixes L :: "nat \<Rightarrow> length_t \<Rightarrow> (fault + nat \<times> length_t) option"
  assumes eq: "\<And>b len. L b len =
      (if thr \<le> len then
         (case q_ary_step Q mem q pred b len of
            Inl f \<Rightarrow> Some (Inl f) | Inr w \<Rightarrow> L (fst w) (snd w))
       else Some (Inr (b, len)))"
    and Q: "2 \<le> Q" "Q \<le> unat thr"
    and range: "b \<le> e" "e \<le> length mem"
  shows "\<exists>r. finish mem q pred (L b (range_length b e)) = Some (Inr r) \<and>
             b \<le> r \<and> r \<le> b + unat (range_length b e) \<and>
             (r < b + unat (range_length b e) \<longrightarrow> \<not> pred (mem ! r) q) \<and>
             (partitioned mem pred q b (b + unat (range_length b e)) \<longrightarrow>
                partition_point mem pred q b (b + unat (range_length b e)) r)"
proof -
  let ?E = "b + unat (range_length b e)"
  let ?G = "partitioned mem pred q b ?E"
  let ?I = "window_inv ?G mem pred q b ?E"
  have E: "?E \<le> length mem" using range_length_le [OF range(1)] range(2) by simp
  have init: "?I b (range_length b e)" by (auto simp: window_inv_def)
  have step: "\<And>b' len. thr \<le> len \<Longrightarrow> ?I b' len \<Longrightarrow>
      \<exists>w. q_ary_step Q mem q pred b' len = Inr w \<and> ?I (fst w) (snd w) \<and> unat (snd w) < unat len"
    by (rule q_ary_step_inv [OF Q _ E])
  from narrowing_loop_invariant [of L thr "q_ary_step Q mem q pred" ?I, OF eq step init]
  obtain w where w: "L b (range_length b e) = Some (Inr w)" "?I (fst w) (snd w)"
    by blast
  from w(2) have i: "b \<le> fst w" "fst w + unat (snd w) \<le> ?E"
    "?G \<longrightarrow> (\<forall>i. b \<le> i \<and> i < fst w \<longrightarrow> pred (mem ! i) q)"
    "fst w + unat (snd w) < ?E \<longrightarrow> \<not> pred (mem ! (fst w + unat (snd w))) q"
    by (simp_all add: window_inv_def)
  have "fst w \<le> fst w + unat (snd w)" "fst w + unat (snd w) \<le> length mem"
    using i(2) E by simp_all
  from linear_search_boundary [OF this, of q pred]
  obtain r where r: "linear_search mem q pred (fst w) (fst w + unat (snd w)) = Inr r"
    "fst w \<le> r" "r \<le> fst w + unat (snd w)"
    "\<forall>i. fst w \<le> i \<and> i < r \<longrightarrow> pred (mem ! i) q"
    "r < fst w + unat (snd w) \<longrightarrow> \<not> pred (mem ! r) q"
    by blast
  have fin: "finish mem q pred (L b (range_length b e)) = Some (Inr r)"
    by (simp add: finish_def w(1) r(1))
  have after: "r < ?E \<longrightarrow> \<not> pred (mem ! r) q"
    using r(3,5) i(4) by (cases "r = fst w + unat (snd w)") auto
  have before: "?G \<longrightarrow> (\<forall>i\<in>{b..<r}. pred (mem ! i) q)"
  proof (intro impI ballI)
    fix j assume "?G" and "j \<in> {b..<r}"
    then show "pred (mem ! j) q" using i(3) r(4) by (cases "j < fst w") auto
  qed
  have "b \<le> r" "r \<le> ?E" using i(1,2) r(2,3) by simp_all
  with fin after before show ?thesis
    by (auto simp: partition_point_def)
qed

lemma q_ary_search_terminates:
  fixes L :: "nat \<Rightarrow> length_t \<Rightarrow> (fault + nat \<times> length_t) option"
  assumes eq: "\<And>b len. L b len =
      (if thr \<le> len then
         (case q_ary_step Q mem q pred b len of
            Inl f \<Rightarrow> Some (Inl f) | Inr w \<Rightarrow> L (fst w) (snd w))
       else Some (Inr (b, len)))"
    and Q: "2 \<le> Q" "Q \<le> unat thr"
  shows "\<exists>r. finish mem q pred (L b len) = Some r"
proof -
  have step: "\<And>b len w. thr \<le> len \<Longrightarrow> q_ary_step Q mem q pred b len = Inr w \<Longrightarrow> unat (snd w) < unat len"
  proof -
    fix b len w
    assume a: "thr \<le> len" "q_ary_step Q mem q pred b len = Inr w"
    from q_ary_step_window [OF Q a] show "unat (snd w) < unat len" by simp
  qed
  have "\<exists>r. L b len = Some r"
    by (rule narrowing_loop_terminates [where step = "q_ary_step Q mem q pred" and thr = thr],
        rule eq, rule step)
  then obtain r where "L b len = Some r" by blast
  then show ?thesis by (cases r) (simp_all add: finish_def)
qed

subsection \<open>Each loop body is the cascade\<close>

lemma q2_ary_step_cascade:
  "q2_ary_step mem q pred b len = q_ary_step 2 mem q pred b len"
  by (simp add: q2_ary_step_def q_ary_step_def Let_def numeral_eq_Suc add.assoc)

lemma q2_ary_loop_unfold:
  "q2_ary_loop thr mem q pred b len =
     (if thr \<le> len then
        (case q_ary_step 2 mem q pred b len of
           Inl f \<Rightarrow> Some (Inl f)
         | Inr w \<Rightarrow> q2_ary_loop thr mem q pred (fst w) (snd w))
      else Some (Inr (b, len)))"
  by (subst q2_ary_loop.simps) (simp only: q2_ary_step_cascade)

lemma q2_threshold:
  fixes thr :: length_t
  shows "2 \<le> thr \<Longrightarrow> 2 \<le> unat thr"
  by (simp add: word_le_nat_alt)

lemma q3_ary_step_cascade:
  "q3_ary_step mem q pred b len = q_ary_step 3 mem q pred b len"
  by (simp add: q3_ary_step_def q_ary_step_def Let_def numeral_eq_Suc add.assoc)

lemma q3_ary_loop_unfold:
  "q3_ary_loop thr mem q pred b len =
     (if thr \<le> len then
        (case q_ary_step 3 mem q pred b len of
           Inl f \<Rightarrow> Some (Inl f)
         | Inr w \<Rightarrow> q3_ary_loop thr mem q pred (fst w) (snd w))
      else Some (Inr (b, len)))"
  by (subst q3_ary_loop.simps) (simp only: q3_ary_step_cascade)

lemma q3_threshold:
  fixes thr :: length_t
  shows "3 \<le> thr \<Longrightarrow> 3 \<le> unat thr"
  by (simp add: word_le_nat_alt)

lemma q4_ary_step_cascade:
  "q4_ary_step mem q pred b len = q_ary_step 4 mem q pred b len"
  by (simp add: q4_ary_step_def q_ary_step_def Let_def numeral_eq_Suc add.assoc)

lemma q4_ary_loop_unfold:
  "q4_ary_loop thr mem q pred b len =
     (if thr \<le> len then
        (case q_ary_step 4 mem q pred b len of
           Inl f \<Rightarrow> Some (Inl f)
         | Inr w \<Rightarrow> q4_ary_loop thr mem q pred (fst w) (snd w))
      else Some (Inr (b, len)))"
  by (subst q4_ary_loop.simps) (simp only: q4_ary_step_cascade)

lemma q4_threshold:
  fixes thr :: length_t
  shows "4 \<le> thr \<Longrightarrow> 4 \<le> unat thr"
  by (simp add: word_le_nat_alt)

lemma q5_ary_step_cascade:
  "q5_ary_step mem q pred b len = q_ary_step 5 mem q pred b len"
  by (simp add: q5_ary_step_def q_ary_step_def Let_def numeral_eq_Suc add.assoc)

lemma q5_ary_loop_unfold:
  "q5_ary_loop thr mem q pred b len =
     (if thr \<le> len then
        (case q_ary_step 5 mem q pred b len of
           Inl f \<Rightarrow> Some (Inl f)
         | Inr w \<Rightarrow> q5_ary_loop thr mem q pred (fst w) (snd w))
      else Some (Inr (b, len)))"
  by (subst q5_ary_loop.simps) (simp only: q5_ary_step_cascade)

lemma q5_threshold:
  fixes thr :: length_t
  shows "5 \<le> thr \<Longrightarrow> 5 \<le> unat thr"
  by (simp add: word_le_nat_alt)

lemma q6_ary_step_cascade:
  "q6_ary_step mem q pred b len = q_ary_step 6 mem q pred b len"
  by (simp add: q6_ary_step_def q_ary_step_def Let_def numeral_eq_Suc add.assoc)

lemma q6_ary_loop_unfold:
  "q6_ary_loop thr mem q pred b len =
     (if thr \<le> len then
        (case q_ary_step 6 mem q pred b len of
           Inl f \<Rightarrow> Some (Inl f)
         | Inr w \<Rightarrow> q6_ary_loop thr mem q pred (fst w) (snd w))
      else Some (Inr (b, len)))"
  by (subst q6_ary_loop.simps) (simp only: q6_ary_step_cascade)

lemma q6_threshold:
  fixes thr :: length_t
  shows "6 \<le> thr \<Longrightarrow> 6 \<le> unat thr"
  by (simp add: word_le_nat_alt)

subsection \<open>The searches return the partition point of their window\<close>

lemma q2_ary_search_window:
  assumes "2 \<le> q2_to_linear_threshold P" and "b \<le> e" and "e \<le> length mem"
  shows "\<exists>r. q2_ary_search P mem b e q pred = Some (Inr r) \<and>
             b \<le> r \<and> r \<le> b + unat (range_length b e) \<and>
             (r < b + unat (range_length b e) \<longrightarrow> \<not> pred (mem ! r) q) \<and>
             (partitioned mem pred q b (b + unat (range_length b e)) \<longrightarrow>
                partition_point mem pred q b (b + unat (range_length b e)) r)"
  unfolding q2_ary_search_def
  by (rule q_ary_search_rule [where Q = 2, OF q2_ary_loop_unfold _ q2_threshold [OF assms(1)] assms(2,3)])
     simp

lemma q2_ary_search_returns:
  assumes "2 \<le> q2_to_linear_threshold P"
  shows "\<exists>r. q2_ary_search P mem b e q pred = Some r"
  unfolding q2_ary_search_def
  by (rule q_ary_search_terminates [where Q = 2, OF q2_ary_loop_unfold _ q2_threshold [OF assms(1)]])
     simp

lemma q3_ary_search_window:
  assumes "3 \<le> q3_to_linear_threshold P" and "b \<le> e" and "e \<le> length mem"
  shows "\<exists>r. q3_ary_search P mem b e q pred = Some (Inr r) \<and>
             b \<le> r \<and> r \<le> b + unat (range_length b e) \<and>
             (r < b + unat (range_length b e) \<longrightarrow> \<not> pred (mem ! r) q) \<and>
             (partitioned mem pred q b (b + unat (range_length b e)) \<longrightarrow>
                partition_point mem pred q b (b + unat (range_length b e)) r)"
  unfolding q3_ary_search_def
  by (rule q_ary_search_rule [where Q = 3, OF q3_ary_loop_unfold _ q3_threshold [OF assms(1)] assms(2,3)])
     simp

lemma q3_ary_search_returns:
  assumes "3 \<le> q3_to_linear_threshold P"
  shows "\<exists>r. q3_ary_search P mem b e q pred = Some r"
  unfolding q3_ary_search_def
  by (rule q_ary_search_terminates [where Q = 3, OF q3_ary_loop_unfold _ q3_threshold [OF assms(1)]])
     simp

lemma q4_ary_search_window:
  assumes "4 \<le> q4_to_linear_threshold P" and "b \<le> e" and "e \<le> length mem"
  shows "\<exists>r. q4_ary_search P mem b e q pred = Some (Inr r) \<and>
             b \<le> r \<and> r \<le> b + unat (range_length b e) \<and>
             (r < b + unat (range_length b e) \<longrightarrow> \<not> pred (mem ! r) q) \<and>
             (partitioned mem pred q b (b + unat (range_length b e)) \<longrightarrow>
                partition_point mem pred q b (b + unat (range_length b e)) r)"
  unfolding q4_ary_search_def
  by (rule q_ary_search_rule [where Q = 4, OF q4_ary_loop_unfold _ q4_threshold [OF assms(1)] assms(2,3)])
     simp

lemma q4_ary_search_returns:
  assumes "4 \<le> q4_to_linear_threshold P"
  shows "\<exists>r. q4_ary_search P mem b e q pred = Some r"
  unfolding q4_ary_search_def
  by (rule q_ary_search_terminates [where Q = 4, OF q4_ary_loop_unfold _ q4_threshold [OF assms(1)]])
     simp

lemma q5_ary_search_window:
  assumes "5 \<le> q5_to_linear_threshold P" and "b \<le> e" and "e \<le> length mem"
  shows "\<exists>r. q5_ary_search P mem b e q pred = Some (Inr r) \<and>
             b \<le> r \<and> r \<le> b + unat (range_length b e) \<and>
             (r < b + unat (range_length b e) \<longrightarrow> \<not> pred (mem ! r) q) \<and>
             (partitioned mem pred q b (b + unat (range_length b e)) \<longrightarrow>
                partition_point mem pred q b (b + unat (range_length b e)) r)"
  unfolding q5_ary_search_def
  by (rule q_ary_search_rule [where Q = 5, OF q5_ary_loop_unfold _ q5_threshold [OF assms(1)] assms(2,3)])
     simp

lemma q5_ary_search_returns:
  assumes "5 \<le> q5_to_linear_threshold P"
  shows "\<exists>r. q5_ary_search P mem b e q pred = Some r"
  unfolding q5_ary_search_def
  by (rule q_ary_search_terminates [where Q = 5, OF q5_ary_loop_unfold _ q5_threshold [OF assms(1)]])
     simp

lemma q6_ary_search_window:
  assumes "6 \<le> q6_to_linear_threshold P" and "b \<le> e" and "e \<le> length mem"
  shows "\<exists>r. q6_ary_search P mem b e q pred = Some (Inr r) \<and>
             b \<le> r \<and> r \<le> b + unat (range_length b e) \<and>
             (r < b + unat (range_length b e) \<longrightarrow> \<not> pred (mem ! r) q) \<and>
             (partitioned mem pred q b (b + unat (range_length b e)) \<longrightarrow>
                partition_point mem pred q b (b + unat (range_length b e)) r)"
  unfolding q6_ary_search_def
  by (rule q_ary_search_rule [where Q = 6, OF q6_ary_loop_unfold _ q6_threshold [OF assms(1)] assms(2,3)])
     simp

lemma q6_ary_search_returns:
  assumes "6 \<le> q6_to_linear_threshold P"
  shows "\<exists>r. q6_ary_search P mem b e q pred = Some r"
  unfolding q6_ary_search_def
  by (rule q_ary_search_terminates [where Q = 6, OF q6_ary_loop_unfold _ q6_threshold [OF assms(1)]])
     simp

subsection \<open>Sorted ranges are partitioned\<close>

lemma length_slice:
  "e \<le> length mem \<Longrightarrow> length (slice mem b e) = e - b"
  by (simp add: slice_def)

lemma nth_slice:
  "e \<le> length mem \<Longrightarrow> i < e - b \<Longrightarrow> slice mem b e ! i = mem ! (b + i)"
  by (simp add: slice_def)

lemma strict_weak_order_split:
  assumes "strict_weak_order pred" and "pred a c"
  shows "pred a x \<or> pred x c"
proof (rule ccontr)
  assume "\<not> (pred a x \<or> pred x c)"
  then have n: "\<not> pred a x" "\<not> pred x c" by simp_all
  from assms(1) have trans: "\<And>x y z. pred x y \<Longrightarrow> pred y z \<Longrightarrow> pred x z"
    and inc: "\<And>x y z. \<not> pred x y \<Longrightarrow> \<not> pred y x \<Longrightarrow> \<not> pred y z \<Longrightarrow> \<not> pred z y \<Longrightarrow> \<not> pred x z"
    unfolding strict_weak_order_def by blast+
  have "\<not> pred x a" using trans [of x a c] assms(2) n(2) by blast
  moreover have "\<not> pred c x" using trans [of a c x] assms(2) n(1) by blast
  ultimately have "\<not> pred a c" using inc [of a x c] n by blast
  with assms(2) show False by simp
qed

lemma sorted_by_partitioned:
  assumes "strict_weak_order pred" and "sorted_by pred (slice mem b e)" and "e \<le> length mem"
  shows "partitioned mem pred q b e"
  unfolding partitioned_def
proof (intro allI impI)
  fix i j assume a: "b \<le> i \<and> i \<le> j \<and> j < e \<and> pred (mem ! j) q"
  show "pred (mem ! i) q"
  proof (cases "i = j")
    case True
    with a show ?thesis by simp
  next
    case False
    with a have lt: "i - b < j - b" "j - b < length (slice mem b e)"
      using assms(3) by (auto simp: length_slice)
    from assms(2) lt have "\<not> pred (slice mem b e ! (j - b)) (slice mem b e ! (i - b))"
      by (simp add: sorted_by_def sorted_wrt_iff_nth_less)
    moreover have "slice mem b e ! (j - b) = mem ! j" "slice mem b e ! (i - b) = mem ! i"
      using a assms(3) by (auto simp: nth_slice)
    ultimately have "\<not> pred (mem ! j) (mem ! i)" by simp
    with strict_weak_order_split [OF assms(1), of "mem ! j" q "mem ! i"] a
    show ?thesis by blast
  qed
qed

lemma sorted_slice_nth_mono:
  fixes mem :: "('a::linorder) list"
  assumes "sorted (slice mem b e)" and "e \<le> length mem" and "b \<le> i" and "i \<le> j" and "j < e"
  shows "mem ! i \<le> mem ! j"
proof -
  have "slice mem b e ! (i - b) \<le> slice mem b e ! (j - b)"
    using assms by (intro sorted_nth_mono) (simp_all add: length_slice)
  moreover have "slice mem b e ! (j - b) = mem ! j" "slice mem b e ! (i - b) = mem ! i"
    using assms by (simp_all add: nth_slice)
  ultimately show ?thesis by simp
qed

lemma sorted_partitioned_less:
  fixes mem :: "('a::linorder) list"
  assumes "sorted (slice mem b e)" and "e \<le> length mem" and "e' \<le> e"
  shows "partitioned mem (\<lambda>x y. x < y) q b e'"
  unfolding partitioned_def
proof (intro allI impI)
  fix i j assume a: "b \<le> i \<and> i \<le> j \<and> j < e' \<and> mem ! j < q"
  with sorted_slice_nth_mono [OF assms(1,2), of i j] assms(3)
  show "mem ! i < q" by auto
qed

lemma sorted_partitioned_less_eq:
  fixes mem :: "('a::linorder) list"
  assumes "sorted (slice mem b e)" and "e \<le> length mem" and "e' \<le> e"
  shows "partitioned mem (\<lambda>x y. x \<le> y) q b e'"
  unfolding partitioned_def
proof (intro allI impI)
  fix i j assume a: "b \<le> i \<and> i \<le> j \<and> j < e' \<and> mem ! j \<le> q"
  with sorted_slice_nth_mono [OF assms(1,2), of i j] assms(3)
  show "mem ! i \<le> q" by auto
qed

lemma q_ary_search_short_range:
  assumes "\<exists>r. S = Some (Inr r) \<and> b \<le> r \<and> r \<le> b + unat (range_length b e) \<and>
             (r < b + unat (range_length b e) \<longrightarrow> \<not> pred (mem ! r) q) \<and>
             (partitioned mem pred q b (b + unat (range_length b e)) \<longrightarrow>
                partition_point mem pred q b (b + unat (range_length b e)) r)"
    and "b \<le> e" and "e - b < 2 ^ 32" and "partitioned mem pred q b e"
  shows "\<exists>r. S = Some (Inr r) \<and> partition_point mem pred q b e r"
  using assms(1,4) by (auto simp: range_length_exact [OF assms(2,3)])

subsection \<open>Lower and upper bounds\<close>

lemma partition_point_find:
  assumes "partition_point mem pred q b e r"
  shows "(case find (\<lambda>p. \<not> pred (mem ! p) q) [b..<e] of Some p \<Rightarrow> p | None \<Rightarrow> e) = r"
proof (cases "r < e")
  case True
  with assms have r: "b \<le> r" "\<not> pred (mem ! r) q" "\<forall>i\<in>{b..<r}. pred (mem ! i) q"
    by (simp_all add: partition_point_def)
  have "find (\<lambda>p. \<not> pred (mem ! p) q) [b..<e] = Some r"
    unfolding find_Some_iff
  proof (intro exI [of _ "r - b"] conjI allI impI)
    show "r - b < length [b..<e]" using True r(1) by simp
    show "\<not> pred (mem ! ([b..<e] ! (r - b))) q" using True r(1,2) by simp
    show "r = [b..<e] ! (r - b)" using True r(1) by simp
    fix j assume "j < r - b"
    then show "\<not> \<not> pred (mem ! ([b..<e] ! j)) q" using True r(1,3) by simp
  qed
  then show ?thesis by simp
next
  case False
  with assms have r: "r = e" "\<forall>i\<in>{b..<e}. pred (mem ! i) q"
    by (simp_all add: partition_point_def)
  then have "find (\<lambda>p. \<not> pred (mem ! p) q) [b..<e] = None"
    by (simp add: find_None_iff)
  with r(1) show ?thesis by simp
qed

lemma lower_bound_is_ref:
  fixes mem :: "('a::linorder) list"
  assumes "\<exists>r. S = Some (Inr r) \<and> partition_point mem (\<lambda>x y. x < y) v b e r"
  shows "S = Some (Inr (ref_lower_bound mem b e v))"
  using assms partition_point_find [of mem "\<lambda>x y. x < y" v b e]
  by (auto simp: ref_lower_bound_def)

lemma upper_bound_is_ref:
  fixes mem :: "('a::linorder) list"
  assumes "\<exists>r. S = Some (Inr r) \<and> partition_point mem (\<lambda>x y. x \<le> y) v b e r"
  shows "S = Some (Inr (ref_upper_bound mem b e v))"
  using assms partition_point_find [of mem "\<lambda>x y. x \<le> y" v b e]
  by (auto simp: ref_upper_bound_def not_le)

lemma bounds_ordered:
  fixes mem :: "('a::linorder) list"
  assumes lower: "\<exists>r. SL = Some (Inr r) \<and> b \<le> r \<and> r \<le> b + unat (range_length b e) \<and>
             (r < b + unat (range_length b e) \<longrightarrow> \<not> mem ! r < q) \<and>
             (partitioned mem (\<lambda>x y. x < y) q b (b + unat (range_length b e)) \<longrightarrow>
                partition_point mem (\<lambda>x y. x < y) q b (b + unat (range_length b e)) r)"
    and upper: "\<exists>r. SU = Some (Inr r) \<and> b \<le> r \<and> r \<le> b + unat (range_length b e) \<and>
             (r < b + unat (range_length b e) \<longrightarrow> \<not> mem ! r \<le> q) \<and>
             (partitioned mem (\<lambda>x y. x \<le> y) q b (b + unat (range_length b e)) \<longrightarrow>
                partition_point mem (\<lambda>x y. x \<le> y) q b (b + unat (range_length b e)) r)"
    and "sorted (slice mem b e)" and "b \<le> e" and "e \<le> length mem"
  shows "\<exists>l u. SL = Some (Inr l) \<and> SU = Some (Inr u) \<and> b \<le> l \<and> l \<le> u \<and> u \<le> e"
proof -
  let ?E = "b + unat (range_length b e)"
  have E: "?E \<le> e" by (rule range_length_le [OF assms(4)])
  have part: "partitioned mem (\<lambda>x y. x < y) q b ?E"
    by (rule sorted_partitioned_less [OF assms(3,5) E])
  from lower part obtain l where l: "SL = Some (Inr l)" "b \<le> l" "l \<le> ?E"
    "\<forall>i\<in>{b..<l}. mem ! i < q"
    by (auto simp: partition_point_def)
  from upper obtain u where u: "SU = Some (Inr u)" "b \<le> u" "u \<le> ?E"
    "u < ?E \<longrightarrow> \<not> mem ! u \<le> q"
    by blast
  have "l \<le> u"
  proof (rule ccontr)
    assume "\<not> l \<le> u"
    then have "u \<in> {b..<l}" "u < ?E" using u(2) l(3) by simp_all
    with l(4) u(4) show False by fastforce
  qed
  with l u E show ?thesis by auto
qed

subsection \<open>Membership\<close>

lemma partition_point_equal:
  fixes mem :: "('a::linorder) list"
  assumes "partition_point mem (\<lambda>x y. x < y) q b e r"
  shows "(r \<noteq> e \<and> \<not> q < mem ! r) \<longleftrightarrow> (r < e \<and> mem ! r = q)"
  using assms by (auto simp: partition_point_def)

lemma search_bool_rule:
  fixes mem :: "('a::linorder) list"
  assumes W: "\<exists>r. S = Some (Inr r) \<and> b \<le> r \<and> r \<le> b + unat (range_length b e) \<and>
             (r < b + unat (range_length b e) \<longrightarrow> \<not> mem ! r < q) \<and>
             (partitioned mem (\<lambda>x y. x < y) q b (b + unat (range_length b e)) \<longrightarrow>
                partition_point mem (\<lambda>x y. x < y) q b (b + unat (range_length b e)) r)"
    and range: "b \<le> e" "e \<le> length mem"
  shows "\<exists>r. S = Some (Inr r) \<and>
             found mem e q S = Some (Inr (r \<noteq> e \<and> \<not> q < mem ! r)) \<and>
             (sorted (slice mem b e) \<and> e - b < 2 ^ 32 \<longrightarrow>
                ((r \<noteq> e \<and> \<not> q < mem ! r) \<longleftrightarrow> (r < e \<and> mem ! r = q)))"
proof -
  let ?E = "b + unat (range_length b e)"
  from W obtain r where r: "S = Some (Inr r)" "r \<le> ?E"
    "partitioned mem (\<lambda>x y. x < y) q b ?E \<longrightarrow> partition_point mem (\<lambda>x y. x < y) q b ?E r"
    by blast
  from r(2) range_length_le [OF range(1)] range(2) have "r \<le> e" "r \<noteq> e \<longrightarrow> r < length mem"
    by simp_all
  with r(1) have f: "found mem e q S = Some (Inr (r \<noteq> e \<and> \<not> q < mem ! r))"
    by (auto simp: found_def)
  have "(r \<noteq> e \<and> \<not> q < mem ! r) \<longleftrightarrow> (r < e \<and> mem ! r = q)"
    if "sorted (slice mem b e)" and "e - b < 2 ^ 32"
  proof -
    have E: "?E = e" by (rule range_length_exact [OF range(1) that(2)])
    have "partitioned mem (\<lambda>x y. x < y) q b e"
      by (rule sorted_partitioned_less [OF that(1) range(2) order_refl])
    with r(3) E have "partition_point mem (\<lambda>x y. x < y) q b e r" by simp
    then show ?thesis by (rule partition_point_equal)
  qed
  with r(1) f show ?thesis by blast
qed

subsection \<open>Where one pass of the loop leaves the window\<close>

lemma cascade_all_pass:
  assumes "\<And>j. 1 \<le> j \<Longrightarrow> j \<le> n \<Longrightarrow>
             p + j * unat fl < length mem \<and> pred (mem ! (p + j * unat fl)) q"
  shows "cascade mem q pred fl len n k p = Inr (p + n * unat fl, len - of_nat (k + n) * fl)"
  using assms
proof (induction n arbitrary: k p)
  case 0
  show ?case by simp
next
  case (Suc n)
  from Suc.prems [of 1] have first: "p + unat fl < length mem" "pred (mem ! (p + unat fl)) q"
    by simp_all
  have rest: "p + unat fl + j * unat fl < length mem \<and> pred (mem ! (p + unat fl + j * unat fl)) q"
    if "1 \<le> j" and "j \<le> n" for j
    using Suc.prems [of "Suc j"] that by (simp add: add.assoc)
  from Suc.IH [OF rest, of "Suc k"] first show ?case
    by (simp add: probe_def add.assoc)
qed

lemma cascade_first_failing:
  assumes "1 \<le> j" and "j \<le> n" and "p + j * unat fl < length mem"
    and "\<And>i. 1 \<le> i \<Longrightarrow> i < j \<Longrightarrow> pred (mem ! (p + i * unat fl)) q"
    and "\<not> pred (mem ! (p + j * unat fl)) q"
  shows "cascade mem q pred fl len n k p = Inr (p + (j - 1) * unat fl, fl)"
  using assms
proof (induction n arbitrary: k p j)
  case 0
  then show ?case by simp
next
  case (Suc n)
  show ?case
  proof (cases "j = 1")
    case True
    with Suc.prems(3,5) show ?thesis by (simp add: probe_def)
  next
    case False
    with Suc.prems(1) obtain j' where j': "j = Suc j'" "1 \<le> j'"
      by (cases j) auto
    have eq: "p + j * unat fl = p + unat fl + j' * unat fl" using j' by (simp add: add.assoc)
    with Suc.prems(3) have inb: "p + unat fl < length mem" by simp
    have pass: "pred (mem ! (p + unat fl)) q" using Suc.prems(4) [of 1] j' by simp
    have a: "j' \<le> n" using Suc.prems(2) j' by simp
    have b: "p + unat fl + j' * unat fl < length mem" using Suc.prems(3) eq by simp
    have c: "pred (mem ! (p + unat fl + i * unat fl)) q" if "1 \<le> i" and "i < j'" for i
      using Suc.prems(4) [of "Suc i"] that j' by (simp add: add.assoc)
    have d: "\<not> pred (mem ! (p + unat fl + j' * unat fl)) q"
      using Suc.prems(5) eq by simp
    have m: "unat fl + (j' - Suc 0) * unat fl = j' * unat fl"
      using j'(2) by (cases j') simp_all
    from Suc.IH [OF j'(2) a b c d, of "Suc k"] inb pass j'(1) show ?thesis
      by (simp add: probe_def add.assoc m)
  qed
qed

lemma q_ary_step_all_pass:
  assumes "all_probes_pass Q mem pred q b len" and "1 \<le> Q"
  shows "q_ary_step Q mem q pred b len =
           Inr (b + (Q - 1) * unat (len div of_nat Q), len - of_nat (Q - 1) * (len div of_nat Q))"
proof -
  have "b + j * unat (len div of_nat Q) < length mem \<and>
        pred (mem ! (b + j * unat (len div of_nat Q))) q" if "1 \<le> j" and "j \<le> Q - 1" for j
  proof -
    from that assms(2) have "j \<in> set [1..<Q]" by simp
    with assms(1) show ?thesis unfolding all_probes_pass_def by blast
  qed
  from cascade_all_pass [of "Q - 1" b "len div of_nat Q" mem pred q len 0, OF this]
  show ?thesis by (simp add: q_ary_step_def)
qed

lemma q_ary_step_first_failing:
  assumes "first_failing_probe Q mem pred q b len k"
  shows "q_ary_step Q mem q pred b len = Inr (b + (k - 1) * unat (len div of_nat Q), len div of_nat Q)"
proof -
  from assms have k: "1 \<le> k" "k < Q" "b + k * unat (len div of_nat Q) < length mem"
    "\<forall>i\<in>set [1..<k]. pred (mem ! (b + i * unat (len div of_nat Q))) q"
    "\<not> pred (mem ! (b + k * unat (len div of_nat Q))) q"
    unfolding first_failing_probe_def by blast+
  have le: "k \<le> Q - 1" using k(2) by simp
  have pass: "pred (mem ! (b + i * unat (len div of_nat Q))) q" if "1 \<le> i" and "i < k" for i
  proof -
    from that have "i \<in> set [1..<k]" by simp
    with k(4) show ?thesis by blast
  qed
  from cascade_first_failing [of k "Q - 1" b "len div of_nat Q" mem pred q len 0, OF k(1) le k(3) pass k(5)]
  show ?thesis by (simp add: q_ary_step_def)
qed

lemma unat_remainder_fragment:
  fixes len :: length_t
  assumes "1 \<le> Q" and "Q < 2 ^ 32"
  shows "unat (len - of_nat (Q - 1) * (len div of_nat Q)) = unat len div Q + unat len mod Q"
proof -
  have fl: "unat (len div of_nat Q) = unat len div Q"
    by (rule unat_fragment_length [OF assms(2)])
  have "(Q - 1) * (unat len div Q) \<le> Q * (unat len div Q)"
    by (rule mult_le_mono1) simp
  also have "\<dots> \<le> unat len" by simp
  finally have le: "(Q - 1) * unat (len div of_nat Q) \<le> unat len" by (simp add: fl)
  have "unat len = Q * (unat len div Q) + unat len mod Q" by simp
  also have "Q * (unat len div Q) = (Q - 1) * (unat len div Q) + unat len div Q"
    using assms(1) by (cases Q) simp_all
  finally have "unat len - (Q - 1) * (unat len div Q) = unat len div Q + unat len mod Q"
    by linarith
  with unat_last_fragment [OF le] show ?thesis by (simp add: fl)
qed

lemma probe_offsets_inside:
  fixes len thr :: length_t
  assumes "2 \<le> Q" and "Q \<le> unat thr" and "thr \<le> len"
  shows "\<forall>k\<in>set [1..<Q]. k * unat (len div of_nat Q) < unat len"
proof
  fix k assume "k \<in> set [1..<Q]"
  then have k: "Suc k \<le> Q" by simp
  note f = q_ary_step_facts [OF assms]
  have "Suc k * unat (len div of_nat Q) \<le> Q * unat (len div of_nat Q)"
    by (rule mult_le_mono1 [OF k])
  also have "\<dots> \<le> unat len" using f(3) assms(1) by simp
  finally show "k * unat (len div of_nat Q) < unat len" using f(2) by simp
qed

lemma linear_search_range:
  assumes "b \<le> e" and "linear_search mem q pred b e = Inr r"
  shows "b \<le> r \<and> r \<le> e"
  using assms
proof (induction mem q pred b e rule: linear_search.induct)
  case (1 mem q pred b e)
  show ?case
  proof (cases "b \<noteq> e \<and> b < length mem \<and> pred (mem ! b) q")
    case True
    with "1.prems"(2) have "linear_search mem q pred (Suc b) e = Inr r"
      by (subst (asm) linear_search.simps) simp
    with "1.IH" True "1.prems"(1) show ?thesis by auto
  next
    case False
    with "1.prems" show ?thesis
      by (subst (asm) linear_search.simps) (auto split: if_splits)
  qed
qed

subsection \<open>The window the loop hands to the linear search\<close>

lemma narrowing_loop_exit:
  fixes L :: "nat \<Rightarrow> length_t \<Rightarrow> (fault + nat \<times> length_t) option"
  assumes eq: "\<And>b len. L b len =
      (if thr \<le> len then
         (case step b len of Inl f \<Rightarrow> Some (Inl f) | Inr w \<Rightarrow> L (fst w) (snd w))
       else Some (Inr (b, len)))"
    and step: "\<And>b len w. thr \<le> len \<Longrightarrow> step b len = Inr w \<Longrightarrow> unat (snd w) < unat len"
    and "L b len = Some (Inr w)"
  shows "snd w < thr"
  using assms(3)
proof (induction "unat len" arbitrary: b len rule: less_induct)
  case less
  show ?case
  proof (cases "thr \<le> len")
    case False
    with less.prems show ?thesis by (subst (asm) eq) auto
  next
    case True
    show ?thesis
    proof (cases "step b len")
      case (Inl f)
      with True less.prems show ?thesis by (subst (asm) eq) simp
    next
      case (Inr v)
      with True less.prems have "L (fst v) (snd v) = Some (Inr w)"
        by (subst (asm) eq) simp
      from less.hyps [OF step [OF True Inr] this] show ?thesis .
    qed
  qed
qed

lemma q_ary_loop_exit:
  fixes L :: "nat \<Rightarrow> length_t \<Rightarrow> (fault + nat \<times> length_t) option"
  assumes eq: "\<And>b len. L b len =
      (if thr \<le> len then
         (case q_ary_step Q mem q pred b len of
            Inl f \<Rightarrow> Some (Inl f) | Inr w \<Rightarrow> L (fst w) (snd w))
       else Some (Inr (b, len)))"
    and Q: "2 \<le> Q" "Q \<le> unat thr"
    and "L b len = Some (Inr w)"
  shows "snd w < thr"
proof -
  have step: "\<And>b len w. thr \<le> len \<Longrightarrow> q_ary_step Q mem q pred b len = Inr w \<Longrightarrow> unat (snd w) < unat len"
  proof -
    fix b len w
    assume a: "thr \<le> len" "q_ary_step Q mem q pred b len = Inr w"
    from q_ary_step_window [OF Q a] show "unat (snd w) < unat len" by simp
  qed
  show ?thesis
    by (rule narrowing_loop_exit [where step = "q_ary_step Q mem q pred" and L = L and b = b and len = len],
        rule eq, rule step, assumption+, rule assms(4))
qed

lemma q_ary_step_inside:
  fixes len thr :: length_t
  assumes "2 \<le> Q" and "Q \<le> unat thr" and "thr \<le> len" and "b + unat len \<le> length mem"
  shows "\<exists>w. q_ary_step Q mem q pred b len = Inr w \<and> b \<le> fst w \<and>
             fst w + unat (snd w) \<le> b + unat len"
proof -
  from q_ary_step_no_fault [OF assms, where q = q and pred = pred]
  obtain w where w: "q_ary_step Q mem q pred b len = Inr w" by blast
  from q_ary_step_window [OF assms(1-3) w] w show ?thesis by blast
qed

subsection \<open>The loop narrows to below the threshold, and the linear search finishes\<close>

lemma linear_search_partition_point:
  assumes "b \<le> e" and "e \<le> length mem"
  shows "\<exists>r. linear_search mem q pred b e = Inr r \<and> partition_point mem pred q b e r"
  using linear_search_boundary [OF assms, of q pred]
  by (auto simp: partition_point_def)

lemma q_ary_search_below_threshold:
  fixes L :: "nat \<Rightarrow> length_t \<Rightarrow> (fault + nat \<times> length_t) option"
  assumes eq: "\<And>b len. L b len =
      (if thr \<le> len then
         (case step b len of Inl f \<Rightarrow> Some (Inl f) | Inr w \<Rightarrow> L (fst w) (snd w))
       else Some (Inr (b, len)))"
    and range: "b \<le> e" "e \<le> length mem"
    and below: "range_length b e < thr"
  shows "\<exists>r. finish mem q pred (L b (range_length b e)) = Some (Inr r) \<and>
             partition_point mem pred q b (b + unat (range_length b e)) r"
proof -
  from below have "\<not> thr \<le> range_length b e" by simp
  then have L: "L b (range_length b e) = Some (Inr (b, range_length b e))"
    by (subst eq) simp
  have "b \<le> b + unat (range_length b e)" "b + unat (range_length b e) \<le> length mem"
    using range_length_le [OF range(1)] range(2) by simp_all
  from linear_search_partition_point [OF this, of q pred] L show ?thesis
    by (auto simp: finish_def)
qed

lemma q_ary_search_narrows_then_scans:
  fixes L :: "nat \<Rightarrow> length_t \<Rightarrow> (fault + nat \<times> length_t) option"
  assumes eq: "\<And>b len. L b len =
      (if thr \<le> len then
         (case q_ary_step Q mem q pred b len of
            Inl f \<Rightarrow> Some (Inl f) | Inr w \<Rightarrow> L (fst w) (snd w))
       else Some (Inr (b, len)))"
    and Q: "2 \<le> Q" "Q \<le> unat thr"
    and range: "b \<le> e" "e \<le> length mem"
  shows "\<exists>w r. L b (range_length b e) = Some (Inr w) \<and> snd w < thr \<and>
             b \<le> fst w \<and> fst w + unat (snd w) \<le> b + unat (range_length b e) \<and>
             (thr \<le> range_length b e \<longrightarrow> unat (snd w) < unat (range_length b e)) \<and>
             (range_length b e < thr \<longrightarrow> w = (b, range_length b e)) \<and>
             finish mem q pred (L b (range_length b e)) = Some (Inr r) \<and>
             partition_point mem pred q (fst w) (fst w + unat (snd w)) r"
proof -
  let ?len = "range_length b e"
  let ?E = "b + unat ?len"
  let ?I = "\<lambda>b' (len' :: length_t). b \<le> b' \<and> b' + unat len' \<le> ?E \<and>
      (unat len' < unat ?len \<or> (b' = b \<and> len' = ?len))"
  have E: "?E \<le> length mem" using range_length_le [OF range(1)] range(2) by simp
  have init: "?I b ?len" by simp
  have step: "\<exists>w. q_ary_step Q mem q pred b' len = Inr w \<and> ?I (fst w) (snd w) \<and>
      unat (snd w) < unat len" if "thr \<le> len" and "?I b' len" for b' len
  proof -
    from that(2) E have "b' + unat len \<le> length mem" by simp
    from q_ary_step_inside [OF Q that(1) this, where q = q and pred = pred]
    obtain w where w: "q_ary_step Q mem q pred b' len = Inr w" "b' \<le> fst w"
      "fst w + unat (snd w) \<le> b' + unat len"
      by blast
    from q_ary_step_window [OF Q that(1) w(1)] have "unat (snd w) < unat len" by simp
    moreover from that(2) have "unat len \<le> unat ?len" by auto
    ultimately show ?thesis using w that(2) by auto
  qed
  from narrowing_loop_invariant [of L thr "q_ary_step Q mem q pred" ?I, OF eq step init]
  obtain w where w: "L b ?len = Some (Inr w)" "?I (fst w) (snd w)" "snd w < thr"
    by blast
  have shorter: "unat (snd w) < unat ?len" if "thr \<le> ?len"
  proof -
    from that w(3) have "snd w \<noteq> ?len" by auto
    with w(2) show ?thesis by auto
  qed
  have same: "w = (b, ?len)" if "?len < thr"
  proof -
    from that have "\<not> thr \<le> ?len" by simp
    then have "L b ?len = Some (Inr (b, ?len))" by (subst eq) simp
    with w(1) show ?thesis by simp
  qed
  have "fst w \<le> fst w + unat (snd w)" "fst w + unat (snd w) \<le> length mem"
    using w(2) E by simp_all
  from linear_search_partition_point [OF this, of q pred]
  obtain r where r: "linear_search mem q pred (fst w) (fst w + unat (snd w)) = Inr r"
    "partition_point mem pred q (fst w) (fst w + unat (snd w)) r"
    by blast
  have "finish mem q pred (L b ?len) = Some (Inr r)"
    by (simp add: finish_def w(1) r(1))
  with w r(2) shorter same show ?thesis by blast
qed

subsection \<open>A threshold below the arity\<close>

text \<open>
  The theorems below ask for a threshold of at least the arity, as the defaults
  \<open>2 * Q\<close> are. It is needed. With the threshold 1 the binary loop does not leave a
  window of one element that passes the test: the fragment length is 0, the probe is at
  the start of the window, and the window stays as it is. With the threshold 0 the loop
  is entered on an empty range and reads \<^verbatim>\<open>*begin\<close>.
\<close>

lemma q2_ary_loop_stuck:
  assumes "q2_ary_loop thr mem q pred b len = Some y"
  shows "\<not> (thr = 1 \<and> mem = [0::nat] \<and> q = (1::nat) \<and> pred = (<) \<and> b = 0 \<and> len = 1)"
  using assms
proof (induction rule: q2_ary_loop.raw_induct [rotated 1, consumes 1])
  case (1 loop thr mem q pred b len y)
  show ?case
  proof
    assume a: "thr = 1 \<and> mem = [0::nat] \<and> q = (1::nat) \<and> pred = (<) \<and> b = 0 \<and> len = 1"
    then have "q2_ary_step mem q pred b len = Inr (0, 1)"
      by (simp add: q2_ary_step_def probe_def)
    with a "1.hyps" have "loop 1 [0] 1 (<) 0 1 = Some y" by simp
    from "1.IH" [OF this] show False by simp
  qed
qed

lemma q2_ary_loop_diverges:
  "q2_ary_loop 1 [0::nat] (Suc 0) (<) 0 1 = None"
  using q2_ary_loop_stuck [of 1 "[0]" 1 "(<)" 0 1]
  by (cases "q2_ary_loop 1 [0::nat] (Suc 0) (<) 0 1") auto

lemma q2_ary_search_small_threshold:
  "q2_ary_search \<lparr> q2_to_linear_threshold = 1 \<rparr> [0::nat] 0 1 (1::nat) (<) = None"
  "q2_ary_search \<lparr> q2_to_linear_threshold = 0 \<rparr> [] 0 0 (1::nat) (<) = Some (Inl Out_Of_Range)"
proof -
  show "q2_ary_search \<lparr> q2_to_linear_threshold = 1 \<rparr> [0::nat] 0 1 (1::nat) (<) = None"
    by (simp add: q2_ary_search_def range_length_def finish_def q2_ary_loop_diverges)
  show "q2_ary_search \<lparr> q2_to_linear_threshold = 0 \<rparr> [] 0 0 (1::nat) (<) = Some (Inl Out_Of_Range)"
    by (simp add: q2_ary_search_def range_length_def q2_ary_loop.simps q2_ary_step_def
        probe_def finish_def)
qed

subsection \<open>The test suite\<close>

text \<open>
  The model passes the assertions that \<^verbatim>\<open>main\<close> runs on the five lower bounds, with
  the default thresholds.
\<close>

lemma test_q2_ary_lower_bound:
  "test_search_on_sorted_int_array (q2_ary_lower_bound q2_ary_search_parameters)"
  unfolding test_search_on_sorted_int_array_def
  by (intro conjI) code_simp+

lemma test_q3_ary_lower_bound:
  "test_search_on_sorted_int_array (q3_ary_lower_bound q3_ary_search_parameters)"
  unfolding test_search_on_sorted_int_array_def
  by (intro conjI) code_simp+

lemma test_q4_ary_lower_bound:
  "test_search_on_sorted_int_array (q4_ary_lower_bound q4_ary_search_parameters)"
  unfolding test_search_on_sorted_int_array_def
  by (intro conjI) code_simp+

lemma test_q5_ary_lower_bound:
  "test_search_on_sorted_int_array (q5_ary_lower_bound q5_ary_search_parameters)"
  unfolding test_search_on_sorted_int_array_def
  by (intro conjI) code_simp+

lemma test_q6_ary_lower_bound:
  "test_search_on_sorted_int_array (q6_ary_lower_bound q6_ary_search_parameters)"
  unfolding test_search_on_sorted_int_array_def
  by (intro conjI) code_simp+

subsection \<open>The search sees the contents of its range only\<close>

text \<open>
  Two arrays that hold the same \<open>n\<close> elements from \<open>b\<close> and from \<open>b'\<close> on: the cascade,
  the loop and the linear search take the same steps on both, at the same offsets.
\<close>

lemma cascade_relocate:
  assumes agree: "\<And>i. i < n \<Longrightarrow> mem ! (b + i) = mem' ! (b' + i)"
    and inside: "b + n \<le> length mem" "b' + n \<le> length mem'"
    and "d + m * unat fl < n \<or> m = 0"
  shows "\<exists>d' l. cascade mem q pred fl len m k (b + d) = Inr (b + d', l) \<and>
                cascade mem' q pred fl len m k (b' + d) = Inr (b' + d', l)"
  using assms(4)
proof (induction m arbitrary: k d)
  case 0
  show ?case by simp
next
  case (Suc m)
  from Suc.prems have lt: "d + unat fl < n" by (simp add: algebra_simps)
  with inside have inb: "b + d + unat fl < length mem" "b' + d + unat fl < length mem'"
    by simp_all
  from agree [OF lt] have same: "mem ! (b + d + unat fl) = mem' ! (b' + d + unat fl)"
    by (simp add: add.assoc)
  have "d + unat fl + m * unat fl < n \<or> m = 0"
    using Suc.prems by (simp add: algebra_simps)
  from Suc.IH [OF this, of "Suc k"]
  obtain d' l where
    "cascade mem q pred fl len m (Suc k) (b + (d + unat fl)) = Inr (b + d', l)"
    "cascade mem' q pred fl len m (Suc k) (b' + (d + unat fl)) = Inr (b' + d', l)"
    by blast
  with inb same show ?case
    by (cases "pred (mem' ! (b' + d + unat fl)) q") (auto simp: probe_def add.assoc)
qed

lemma q_ary_step_relocate:
  fixes len thr :: length_t
  assumes agree: "\<And>i. i < n \<Longrightarrow> mem ! (b + i) = mem' ! (b' + i)"
    and inside: "b + n \<le> length mem" "b' + n \<le> length mem'"
    and Q: "2 \<le> Q" "Q \<le> unat thr" and thr: "thr \<le> len"
    and d: "d + unat len \<le> n"
  shows "\<exists>d' l. q_ary_step Q mem q pred (b + d) len = Inr (b + d', l) \<and>
                q_ary_step Q mem' q pred (b' + d) len = Inr (b' + d', l) \<and>
                d' + unat l \<le> n \<and> unat l < unat len"
proof -
  let ?f = "unat (len div of_nat Q)"
  note f = q_ary_step_facts [OF Q thr]
  have "(Q - 1) * ?f + ?f \<le> unat len" using f(3) by (simp add: algebra_simps)
  with f(2) d have "d + (Q - 1) * ?f < n \<or> Q - 1 = 0" by linarith
  from cascade_relocate [OF agree inside this, of q pred len 0]
  obtain d' l where s: "q_ary_step Q mem q pred (b + d) len = Inr (b + d', l)"
    "q_ary_step Q mem' q pred (b' + d) len = Inr (b' + d', l)"
    unfolding q_ary_step_def by blast
  from q_ary_step_window [OF Q thr s(1)] d have "d' + unat l \<le> n" "unat l < unat len"
    by simp_all
  with s show ?thesis by blast
qed

lemma narrowing_loop_relocate:
  fixes L L' :: "nat \<Rightarrow> length_t \<Rightarrow> (fault + nat \<times> length_t) option"
  assumes eq: "\<And>b len. L b len =
      (if thr \<le> len then
         (case step b len of Inl f \<Rightarrow> Some (Inl f) | Inr w \<Rightarrow> L (fst w) (snd w))
       else Some (Inr (b, len)))"
    and eq': "\<And>b len. L' b len =
      (if thr \<le> len then
         (case step' b len of Inl f \<Rightarrow> Some (Inl f) | Inr w \<Rightarrow> L' (fst w) (snd w))
       else Some (Inr (b, len)))"
    and step: "\<And>d len. thr \<le> len \<Longrightarrow> d + unat len \<le> n \<Longrightarrow>
        \<exists>d' l. step (b + d) len = Inr (b + d', l) \<and> step' (b' + d) len = Inr (b' + d', l) \<and>
               d' + unat l \<le> n \<and> unat l < unat len"
    and "d + unat len \<le> n"
  shows "\<exists>d' l. L (b + d) len = Some (Inr (b + d', l)) \<and>
                L' (b' + d) len = Some (Inr (b' + d', l)) \<and> d' + unat l \<le> n"
  using assms(4)
proof (induction "unat len" arbitrary: d len rule: less_induct)
  case less
  show ?case
  proof (cases "thr \<le> len")
    case False
    have "L (b + d) len = Some (Inr (b + d, len))" using False by (subst eq) simp
    moreover have "L' (b' + d) len = Some (Inr (b' + d, len))" using False by (subst eq') simp
    ultimately show ?thesis using less.prems by blast
  next
    case True
    from step [OF True less.prems]
    obtain d1 l1 where s: "step (b + d) len = Inr (b + d1, l1)"
      "step' (b' + d) len = Inr (b' + d1, l1)" "d1 + unat l1 \<le> n" "unat l1 < unat len"
      by blast
    from less.hyps [OF s(4) s(3)]
    obtain d' l where r: "L (b + d1) l1 = Some (Inr (b + d', l))"
      "L' (b' + d1) l1 = Some (Inr (b' + d', l))" "d' + unat l \<le> n"
      by blast
    have "L (b + d) len = Some (Inr (b + d', l))" using True s(1) r(1) by (subst eq) simp
    moreover have "L' (b' + d) len = Some (Inr (b' + d', l))"
      using True s(2) r(2) by (subst eq') simp
    ultimately show ?thesis using r(3) by blast
  qed
qed

lemma linear_search_relocate:
  assumes agree: "\<And>i. i < n \<Longrightarrow> mem ! (b + i) = mem' ! (b' + i)"
    and inside: "b + n \<le> length mem" "b' + n \<le> length mem'"
    and "d \<le> d2" and "d2 \<le> n"
  shows "\<exists>r. linear_search mem q pred (b + d) (b + d2) = Inr (b + r) \<and>
             linear_search mem' q pred (b' + d) (b' + d2) = Inr (b' + r)"
  using assms(4)
proof (induction "d2 - d" arbitrary: d)
  case 0
  then have "d = d2" by simp
  then show ?case by (subst linear_search.simps, subst (2) linear_search.simps) simp
next
  case (Suc x)
  then have lt: "d < d2" "d < n" using assms(5) by simp_all
  with inside have inb: "b + d < length mem" "b' + d < length mem'" by simp_all
  from agree [OF lt(2)] have same: "mem ! (b + d) = mem' ! (b' + d)" .
  show ?case
  proof (cases "pred (mem ! (b + d)) q")
    case False
    with same lt inb show ?thesis
      by (subst linear_search.simps, subst (2) linear_search.simps) auto
  next
    case True
    have "x = d2 - Suc d" "Suc d \<le> d2" using Suc.hyps(2) lt by simp_all
    from Suc.hyps(1) [OF this]
    obtain r where "linear_search mem q pred (b + Suc d) (b + d2) = Inr (b + r)"
      "linear_search mem' q pred (b' + Suc d) (b' + d2) = Inr (b' + r)"
      by blast
    with True same lt inb show ?thesis
      by (subst linear_search.simps, subst (2) linear_search.simps) auto
  qed
qed

lemma q_ary_search_relocate:
  fixes L L' :: "nat \<Rightarrow> length_t \<Rightarrow> (fault + nat \<times> length_t) option"
  assumes eq: "\<And>b len. L b len =
      (if thr \<le> len then
         (case q_ary_step Q mem q pred b len of
            Inl f \<Rightarrow> Some (Inl f) | Inr w \<Rightarrow> L (fst w) (snd w))
       else Some (Inr (b, len)))"
    and eq': "\<And>b len. L' b len =
      (if thr \<le> len then
         (case q_ary_step Q mem' q pred b len of
            Inl f \<Rightarrow> Some (Inl f) | Inr w \<Rightarrow> L' (fst w) (snd w))
       else Some (Inr (b, len)))"
    and Q: "2 \<le> Q" "Q \<le> unat thr"
    and range: "b \<le> e" "e \<le> length mem" "b' \<le> e'" "e' \<le> length mem'"
    and same: "slice mem b e = slice mem' b' e'"
  shows "\<exists>r. finish mem q pred (L b (range_length b e)) = Some (Inr (b + r)) \<and>
             finish mem' q pred (L' b' (range_length b' e')) = Some (Inr (b' + r)) \<and>
             r \<le> e - b"
proof -
  let ?n = "e - b"
  from same have "length (slice mem b e) = length (slice mem' b' e')" by simp
  then have n: "e' - b' = ?n" using range by (simp add: length_slice)
  have agree: "mem ! (b + i) = mem' ! (b' + i)" if "i < ?n" for i
  proof -
    have "slice mem b e ! i = mem ! (b + i)" using that range(2) by (simp add: nth_slice)
    moreover have "slice mem' b' e' ! i = mem' ! (b' + i)"
      using that range(4) n by (simp add: nth_slice)
    ultimately show ?thesis using same by simp
  qed
  have inside: "b + ?n \<le> length mem" "b' + ?n \<le> length mem'"
    using range n by simp_all
  have len: "range_length b' e' = range_length b e"
  proof -
    have "int e' - int b' = int e - int b" using n range(1,3) by linarith
    then show ?thesis by (simp only: range_length_def)
  qed
  have start: "0 + unat (range_length b e) \<le> ?n"
    using range_length_le [OF range(1)] range(1) by simp
  have step: "\<And>d len. thr \<le> len \<Longrightarrow> d + unat len \<le> ?n \<Longrightarrow>
        \<exists>d' l. q_ary_step Q mem q pred (b + d) len = Inr (b + d', l) \<and>
               q_ary_step Q mem' q pred (b' + d) len = Inr (b' + d', l) \<and>
               d' + unat l \<le> ?n \<and> unat l < unat len"
    by (rule q_ary_step_relocate [OF agree inside Q])
  from narrowing_loop_relocate [of L thr "q_ary_step Q mem q pred" L' "q_ary_step Q mem' q pred"
      ?n b b' 0 "range_length b e", OF eq eq' step start]
  obtain d l where w: "L b (range_length b e) = Some (Inr (b + d, l))"
    "L' b' (range_length b e) = Some (Inr (b' + d, l))" "d + unat l \<le> ?n"
    by auto
  from linear_search_relocate [OF agree inside _ w(3), of d q pred]
  obtain r where r: "linear_search mem q pred (b + d) (b + (d + unat l)) = Inr (b + r)"
    "linear_search mem' q pred (b' + d) (b' + (d + unat l)) = Inr (b' + r)"
    by auto
  have "b + d \<le> b + (d + unat l)" by simp
  from linear_search_range [OF this r(1)] w(3) have "r \<le> ?n" by simp
  with w r len show ?thesis
    by (simp add: finish_def add.assoc)
qed

lemma found_relocate:
  fixes mem mem' :: "('a::ord) list"
  assumes S: "\<exists>r. S = Some (Inr (b + r)) \<and> S' = Some (Inr (b' + r)) \<and> r \<le> e - b"
    and range: "b \<le> e" "e \<le> length mem" "b' \<le> e'" "e' \<le> length mem'"
    and same: "slice mem b e = slice mem' b' e'"
  shows "found mem e q S = found mem' e' q S'"
proof -
  from S obtain r where r: "S = Some (Inr (b + r))" "S' = Some (Inr (b' + r))" "r \<le> e - b"
    by blast
  from same have "length (slice mem b e) = length (slice mem' b' e')" by simp
  then have n: "e' - b' = e - b" using range by (simp add: length_slice)
  show ?thesis
  proof (cases "r = e - b")
    case True
    with n range have "b + r = e" "b' + r = e'" by simp_all
    with r show ?thesis by (simp add: found_def)
  next
    case False
    with r(3) have lt: "r < e - b" by simp
    have "slice mem b e ! r = mem ! (b + r)" using lt range(2) by (simp add: nth_slice)
    moreover have "slice mem' b' e' ! r = mem' ! (b' + r)"
      using lt range(4) n by (simp add: nth_slice)
    ultimately have "mem ! (b + r) = mem' ! (b' + r)" using same by simp
    moreover have "b + r \<noteq> e" "b' + r \<noteq> e'" "b + r < length mem" "b' + r < length mem'"
      using lt n range by simp_all
    ultimately show ?thesis using r by (simp add: found_def)
  qed
qed

lemma q_ary_search_own_range:
  fixes L L' :: "nat \<Rightarrow> length_t \<Rightarrow> (fault + nat \<times> length_t) option"
  assumes eq: "\<And>b len. L b len =
      (if thr \<le> len then
         (case q_ary_step Q mem q pred b len of
            Inl f \<Rightarrow> Some (Inl f) | Inr w \<Rightarrow> L (fst w) (snd w))
       else Some (Inr (b, len)))"
    and eq': "\<And>b' len. L' b' len =
      (if thr \<le> len then
         (case q_ary_step Q (slice mem b e) q pred b' len of
            Inl f \<Rightarrow> Some (Inl f) | Inr w \<Rightarrow> L' (fst w) (snd w))
       else Some (Inr (b', len)))"
    and Q: "2 \<le> Q" "Q \<le> unat thr"
    and range: "b \<le> e" "e \<le> length mem"
  shows "\<exists>r. finish mem q pred (L b (range_length b e)) = Some (Inr (b + r)) \<and>
             finish (slice mem b e) q pred (L' 0 (range_length 0 (e - b))) = Some (Inr r) \<and>
             r \<le> e - b"
proof -
  have same: "slice mem b e = slice (slice mem b e) 0 (e - b)"
    by (simp add: slice_def)
  have own: "0 \<le> e - b" "e - b \<le> length (slice mem b e)"
    using range by (simp_all add: length_slice)
  from q_ary_search_relocate [of L thr Q mem q pred L' "slice mem b e" b e 0 "e - b",
      OF eq eq' Q range own same]
  show ?thesis by simp
qed

section \<open>The properties of the specification\<close>

subsection \<open>C1: the search returns the first position at which the predicate fails\<close>

text \<open>
  C1, as amended. For every arity \<open>Q\<close> from 2 to 6, every range \<open>[b, e)\<close> of an array
  that has fewer than \<open>2 ^ 32\<close> elements and is sorted with respect to a strict weak
  ordering \<open>pred\<close>, and every query \<open>q\<close>, the search returns the first position of the
  range at which \<open>pred (element, q)\<close> is false, and \<open>e\<close> when it is false nowhere; for
  an empty range that position is \<open>b = e\<close>. The thresholds are at their defaults
  \<open>2 * Q\<close>, or at any value of at least \<open>Q\<close>.
\<close>

theorem q_ary_search_partition_point:
  fixes pred :: "'a \<Rightarrow> 'a \<Rightarrow> bool"
  assumes "strict_weak_order pred" and "sorted_by pred (slice mem b e)"
    and "b \<le> e" and "e \<le> length mem" and "e - b < 2 ^ 32"
    and "2 \<le> q2_to_linear_threshold P2" and "3 \<le> q3_to_linear_threshold P3"
    and "4 \<le> q4_to_linear_threshold P4" and "5 \<le> q5_to_linear_threshold P5"
    and "6 \<le> q6_to_linear_threshold P6"
  shows "(\<exists>r. q2_ary_search P2 mem b e q pred = Some (Inr r) \<and> partition_point mem pred q b e r) \<and>
         (\<exists>r. q3_ary_search P3 mem b e q pred = Some (Inr r) \<and> partition_point mem pred q b e r) \<and>
         (\<exists>r. q4_ary_search P4 mem b e q pred = Some (Inr r) \<and> partition_point mem pred q b e r) \<and>
         (\<exists>r. q5_ary_search P5 mem b e q pred = Some (Inr r) \<and> partition_point mem pred q b e r) \<and>
         (\<exists>r. q6_ary_search P6 mem b e q pred = Some (Inr r) \<and> partition_point mem pred q b e r)"
proof -
  note part = sorted_by_partitioned [OF assms(1,2,4), of q]
  note short = q_ary_search_short_range [OF _ assms(3,5) part]
  show ?thesis
  proof (intro conjI)
    show "\<exists>r. q2_ary_search P2 mem b e q pred = Some (Inr r) \<and> partition_point mem pred q b e r"
      by (rule short [OF q2_ary_search_window [OF assms(6,3,4)]])
    show "\<exists>r. q3_ary_search P3 mem b e q pred = Some (Inr r) \<and> partition_point mem pred q b e r"
      by (rule short [OF q3_ary_search_window [OF assms(7,3,4)]])
    show "\<exists>r. q4_ary_search P4 mem b e q pred = Some (Inr r) \<and> partition_point mem pred q b e r"
      by (rule short [OF q4_ary_search_window [OF assms(8,3,4)]])
    show "\<exists>r. q5_ary_search P5 mem b e q pred = Some (Inr r) \<and> partition_point mem pred q b e r"
      by (rule short [OF q5_ary_search_window [OF assms(9,3,4)]])
    show "\<exists>r. q6_ary_search P6 mem b e q pred = Some (Inr r) \<and> partition_point mem pred q b e r"
      by (rule short [OF q6_ary_search_window [OF assms(10,3,4)]])
  qed
qed

text \<open>
  The theorem at the first array of the test suite, the query 19 and the default
  thresholds.
\<close>

theorem q_ary_search_partition_point_witness:
  "strict_weak_order ((<) :: int \<Rightarrow> int \<Rightarrow> bool) \<and>
   sorted_by (<) (slice ordinary_sequence 0 13) \<and>
   (0::nat) \<le> 13 \<and>
   13 \<le> length ordinary_sequence \<and>
   (13::nat) - 0 < 2 ^ 32 \<and>
   2 \<le> q2_to_linear_threshold q2_ary_search_parameters \<and>
   3 \<le> q3_to_linear_threshold q3_ary_search_parameters \<and>
   4 \<le> q4_to_linear_threshold q4_ary_search_parameters \<and>
   5 \<le> q5_to_linear_threshold q5_ary_search_parameters \<and>
   6 \<le> q6_to_linear_threshold q6_ary_search_parameters \<and>
   (\<exists>r. q2_ary_search q2_ary_search_parameters ordinary_sequence 0 13 19 (<) = Some (Inr r) \<and>
        partition_point ordinary_sequence (<) 19 0 13 r) \<and>
   (\<exists>r. q3_ary_search q3_ary_search_parameters ordinary_sequence 0 13 19 (<) = Some (Inr r) \<and>
        partition_point ordinary_sequence (<) 19 0 13 r) \<and>
   (\<exists>r. q4_ary_search q4_ary_search_parameters ordinary_sequence 0 13 19 (<) = Some (Inr r) \<and>
        partition_point ordinary_sequence (<) 19 0 13 r) \<and>
   (\<exists>r. q5_ary_search q5_ary_search_parameters ordinary_sequence 0 13 19 (<) = Some (Inr r) \<and>
        partition_point ordinary_sequence (<) 19 0 13 r) \<and>
   (\<exists>r. q6_ary_search q6_ary_search_parameters ordinary_sequence 0 13 19 (<) = Some (Inr r) \<and>
        partition_point ordinary_sequence (<) 19 0 13 r)"
proof -
  have swo: "strict_weak_order ((<) :: int \<Rightarrow> int \<Rightarrow> bool)"
    by (auto simp: strict_weak_order_def)
  have srt: "sorted_by (<) (slice ordinary_sequence 0 13)"
    by (simp add: sorted_by_def slice_def ordinary_sequence_def)
  have range: "(0::nat) \<le> 13" "13 \<le> length ordinary_sequence" "(13::nat) - 0 < 2 ^ 32"
    by (simp_all add: ordinary_sequence_def)
  have thr: "2 \<le> q2_to_linear_threshold q2_ary_search_parameters"
    "3 \<le> q3_to_linear_threshold q3_ary_search_parameters"
    "4 \<le> q4_to_linear_threshold q4_ary_search_parameters"
    "5 \<le> q5_to_linear_threshold q5_ary_search_parameters"
    "6 \<le> q6_to_linear_threshold q6_ary_search_parameters"
    by (simp_all add: q2_ary_search_parameters_def q3_ary_search_parameters_def
        q4_ary_search_parameters_def q5_ary_search_parameters_def q6_ary_search_parameters_def)
  from q_ary_search_partition_point [OF swo srt range thr, of 19] swo srt range thr
  show ?thesis by (elim conjE, intro conjI) assumption+
qed

text \<open>
  C1 as the specification states it, for every range, fails. An array of \<open>2 ^ 32\<close>
  zeros is sorted and each of its elements is less than 1, so the position to return is
  its end; the conversion to \<^verbatim>\<open>length_t\<close> makes the length 0 and the search returns
  the start.
\<close>

theorem q_ary_search_partition_point_counterexample:
  "strict_weak_order ((<) :: nat \<Rightarrow> nat \<Rightarrow> bool) \<and>
   sorted_by (<) (slice (replicate (2 ^ 32) (0::nat)) 0 (2 ^ 32)) \<and>
   2 ^ 32 \<le> length (replicate (2 ^ 32) (0::nat)) \<and>
   q2_ary_search q2_ary_search_parameters (replicate (2 ^ 32) (0::nat)) 0 (2 ^ 32) (1::nat) (<)
     = Some (Inr 0) \<and>
   \<not> partition_point (replicate (2 ^ 32) (0::nat)) (<) (1::nat) 0 (2 ^ 32) 0"
proof (intro conjI)
  show "strict_weak_order ((<) :: nat \<Rightarrow> nat \<Rightarrow> bool)"
    by (auto simp: strict_weak_order_def)
  show "sorted_by (<) (slice (replicate (2 ^ 32) (0::nat)) 0 (2 ^ 32))"
    by (simp add: sorted_by_def slice_def sorted_wrt_iff_nth_less)
  show "2 ^ 32 \<le> length (replicate (2 ^ 32) (0::nat))"
    by simp
  show "q2_ary_search q2_ary_search_parameters (replicate (2 ^ 32) (0::nat)) 0 (2 ^ 32) (1::nat) (<)
     = Some (Inr 0)"
    by (simp add: q2_ary_search_def q2_ary_search_parameters_def range_length_def
        q2_ary_loop.simps finish_def linear_search.simps)
  show "\<not> partition_point (replicate (2 ^ 32) (0::nat)) (<) (1::nat) 0 (2 ^ 32) 0"
    by (simp add: partition_point_def)
qed

subsection \<open>C2: agreement with the reference lower and upper bound\<close>

text \<open>
  C2, as amended. For every arity \<open>Q\<close> from 2 to 6, every sorted range of fewer than
  \<open>2 ^ 32\<close> elements and every query \<open>v\<close>, the lower bound of the Q-ary search is the
  reference lower bound (the first position whose element is not less than \<open>v\<close>) and
  its upper bound is the reference upper bound (the first position whose element is
  greater than \<open>v\<close>). The thresholds are at their defaults \<open>2 * Q\<close>, or at any value of
  at least \<open>Q\<close>.
\<close>

theorem q_ary_bounds_agree_with_reference:
  fixes mem :: "('a::linorder) list"
  assumes "sorted (slice mem b e)"
    and "b \<le> e" and "e \<le> length mem" and "e - b < 2 ^ 32"
    and "2 \<le> q2_to_linear_threshold P2" and "3 \<le> q3_to_linear_threshold P3"
    and "4 \<le> q4_to_linear_threshold P4" and "5 \<le> q5_to_linear_threshold P5"
    and "6 \<le> q6_to_linear_threshold P6"
  shows "q2_ary_lower_bound P2 mem b e v = Some (Inr (ref_lower_bound mem b e v)) \<and>
         q2_ary_upper_bound P2 mem b e v = Some (Inr (ref_upper_bound mem b e v)) \<and>
         q3_ary_lower_bound P3 mem b e v = Some (Inr (ref_lower_bound mem b e v)) \<and>
         q3_ary_upper_bound P3 mem b e v = Some (Inr (ref_upper_bound mem b e v)) \<and>
         q4_ary_lower_bound P4 mem b e v = Some (Inr (ref_lower_bound mem b e v)) \<and>
         q4_ary_upper_bound P4 mem b e v = Some (Inr (ref_upper_bound mem b e v)) \<and>
         q5_ary_lower_bound P5 mem b e v = Some (Inr (ref_lower_bound mem b e v)) \<and>
         q5_ary_upper_bound P5 mem b e v = Some (Inr (ref_upper_bound mem b e v)) \<and>
         q6_ary_lower_bound P6 mem b e v = Some (Inr (ref_lower_bound mem b e v)) \<and>
         q6_ary_upper_bound P6 mem b e v = Some (Inr (ref_upper_bound mem b e v))"
proof -
  note lt = sorted_partitioned_less [OF assms(1,3) order_refl, of v]
  note le = sorted_partitioned_less_eq [OF assms(1,3) order_refl, of v]
  note lower = lower_bound_is_ref [OF q_ary_search_short_range [OF _ assms(2,4) lt]]
  note upper = upper_bound_is_ref [OF q_ary_search_short_range [OF _ assms(2,4) le]]
  show ?thesis
  proof (intro conjI)
    show "q2_ary_lower_bound P2 mem b e v = Some (Inr (ref_lower_bound mem b e v))"
      unfolding q2_ary_lower_bound_def
      by (rule lower [OF q2_ary_search_window [OF assms(5) assms(2,3)]])
    show "q2_ary_upper_bound P2 mem b e v = Some (Inr (ref_upper_bound mem b e v))"
      unfolding q2_ary_upper_bound_def
      by (rule upper [OF q2_ary_search_window [OF assms(5) assms(2,3)]])
    show "q3_ary_lower_bound P3 mem b e v = Some (Inr (ref_lower_bound mem b e v))"
      unfolding q3_ary_lower_bound_def
      by (rule lower [OF q3_ary_search_window [OF assms(6) assms(2,3)]])
    show "q3_ary_upper_bound P3 mem b e v = Some (Inr (ref_upper_bound mem b e v))"
      unfolding q3_ary_upper_bound_def
      by (rule upper [OF q3_ary_search_window [OF assms(6) assms(2,3)]])
    show "q4_ary_lower_bound P4 mem b e v = Some (Inr (ref_lower_bound mem b e v))"
      unfolding q4_ary_lower_bound_def
      by (rule lower [OF q4_ary_search_window [OF assms(7) assms(2,3)]])
    show "q4_ary_upper_bound P4 mem b e v = Some (Inr (ref_upper_bound mem b e v))"
      unfolding q4_ary_upper_bound_def
      by (rule upper [OF q4_ary_search_window [OF assms(7) assms(2,3)]])
    show "q5_ary_lower_bound P5 mem b e v = Some (Inr (ref_lower_bound mem b e v))"
      unfolding q5_ary_lower_bound_def
      by (rule lower [OF q5_ary_search_window [OF assms(8) assms(2,3)]])
    show "q5_ary_upper_bound P5 mem b e v = Some (Inr (ref_upper_bound mem b e v))"
      unfolding q5_ary_upper_bound_def
      by (rule upper [OF q5_ary_search_window [OF assms(8) assms(2,3)]])
    show "q6_ary_lower_bound P6 mem b e v = Some (Inr (ref_lower_bound mem b e v))"
      unfolding q6_ary_lower_bound_def
      by (rule lower [OF q6_ary_search_window [OF assms(9) assms(2,3)]])
    show "q6_ary_upper_bound P6 mem b e v = Some (Inr (ref_upper_bound mem b e v))"
      unfolding q6_ary_upper_bound_def
      by (rule upper [OF q6_ary_search_window [OF assms(9) assms(2,3)]])
  qed
qed

text \<open>
  The theorem at the fragmented sequence of the test suite and the query 7: the run of
  7s is at the positions 3 to 6.
\<close>

theorem q_ary_bounds_agree_with_reference_witness:
  "sorted (slice fragmented_sequence 0 13) \<and>
   (0::nat) \<le> 13 \<and> 13 \<le> length fragmented_sequence \<and> (13::nat) - 0 < 2 ^ 32 \<and>
   2 \<le> q2_to_linear_threshold q2_ary_search_parameters \<and>
   3 \<le> q3_to_linear_threshold q3_ary_search_parameters \<and>
   4 \<le> q4_to_linear_threshold q4_ary_search_parameters \<and>
   5 \<le> q5_to_linear_threshold q5_ary_search_parameters \<and>
   6 \<le> q6_to_linear_threshold q6_ary_search_parameters \<and>
   q2_ary_lower_bound q2_ary_search_parameters fragmented_sequence 0 13 7 = Some (Inr 3) \<and>
   q2_ary_upper_bound q2_ary_search_parameters fragmented_sequence 0 13 7 = Some (Inr 7) \<and>
   q3_ary_lower_bound q3_ary_search_parameters fragmented_sequence 0 13 7 = Some (Inr 3) \<and>
   q3_ary_upper_bound q3_ary_search_parameters fragmented_sequence 0 13 7 = Some (Inr 7) \<and>
   q4_ary_lower_bound q4_ary_search_parameters fragmented_sequence 0 13 7 = Some (Inr 3) \<and>
   q4_ary_upper_bound q4_ary_search_parameters fragmented_sequence 0 13 7 = Some (Inr 7) \<and>
   q5_ary_lower_bound q5_ary_search_parameters fragmented_sequence 0 13 7 = Some (Inr 3) \<and>
   q5_ary_upper_bound q5_ary_search_parameters fragmented_sequence 0 13 7 = Some (Inr 7) \<and>
   q6_ary_lower_bound q6_ary_search_parameters fragmented_sequence 0 13 7 = Some (Inr 3) \<and>
   q6_ary_upper_bound q6_ary_search_parameters fragmented_sequence 0 13 7 = Some (Inr 7)"
proof -
  have srt: "sorted (slice fragmented_sequence 0 13)"
    by (simp add: slice_def fragmented_sequence_def)
  have range: "(0::nat) \<le> 13" "13 \<le> length fragmented_sequence" "(13::nat) - 0 < 2 ^ 32"
    by (simp_all add: fragmented_sequence_def)
  have thr: "2 \<le> q2_to_linear_threshold q2_ary_search_parameters"
    "3 \<le> q3_to_linear_threshold q3_ary_search_parameters"
    "4 \<le> q4_to_linear_threshold q4_ary_search_parameters"
    "5 \<le> q5_to_linear_threshold q5_ary_search_parameters"
    "6 \<le> q6_to_linear_threshold q6_ary_search_parameters"
    by (simp_all add: q2_ary_search_parameters_def q3_ary_search_parameters_def
        q4_ary_search_parameters_def q5_ary_search_parameters_def q6_ary_search_parameters_def)
  have ref: "ref_lower_bound fragmented_sequence 0 13 7 = 3"
    "ref_upper_bound fragmented_sequence 0 13 7 = 7"
    by code_simp+
  from q_ary_bounds_agree_with_reference [OF srt range thr, of 7] srt range thr
  show ?thesis by (simp only: ref)
qed

text \<open>
  C2 as the specification states it, for every sorted range, fails on the array of
  \<open>2 ^ 32\<close> zeros: the reference lower bound of 1 is the end of the array, the lower bound
  of the binary variant is its start.
\<close>

theorem q_ary_bounds_agree_with_reference_counterexample:
  "sorted (slice (replicate (2 ^ 32) (0::nat)) 0 (2 ^ 32)) \<and>
   2 ^ 32 \<le> length (replicate (2 ^ 32) (0::nat)) \<and>
   ref_lower_bound (replicate (2 ^ 32) (0::nat)) 0 (2 ^ 32) 1 = 2 ^ 32 \<and>
   q2_ary_lower_bound q2_ary_search_parameters (replicate (2 ^ 32) (0::nat)) 0 (2 ^ 32) 1
     = Some (Inr 0)"
proof (intro conjI)
  show "sorted (slice (replicate (2 ^ 32) (0::nat)) 0 (2 ^ 32))"
    by (simp add: slice_def)
  show "2 ^ 32 \<le> length (replicate (2 ^ 32) (0::nat))"
    by simp
  have "find (\<lambda>p. \<not> replicate (2 ^ 32) (0::nat) ! p < 1) [0..<2 ^ 32] = None"
    by (simp add: find_None_iff)
  then show "ref_lower_bound (replicate (2 ^ 32) (0::nat)) 0 (2 ^ 32) 1 = 2 ^ 32"
    by (simp add: ref_lower_bound_def)
  show "q2_ary_lower_bound q2_ary_search_parameters (replicate (2 ^ 32) (0::nat)) 0 (2 ^ 32) 1
     = Some (Inr 0)"
    by (simp add: q2_ary_lower_bound_def q2_ary_search_def q2_ary_search_parameters_def
        range_length_def q2_ary_loop.simps finish_def linear_search.simps)
qed

subsection \<open>C3: the window after a failing probe\<close>

text \<open>
  C3, as amended. In every pass of the loop of every arity \<open>Q\<close> from 2 to 6, when the
  probes at \<open>begin + fragment_length\<close>, ..., \<open>begin + (Q - 1) * fragment_length\<close> are
  tested from left to right and the \<open>k\<close>-th is the first to fail, the window becomes the
  one fragment before that probe: its start is \<open>begin + (k - 1) * fragment_length\<close> and
  its length is \<open>fragment_length\<close>.
\<close>

theorem q_ary_step_first_failing_probe:
  "(first_failing_probe 2 mem pred q b len k \<longrightarrow>
      q2_ary_step mem q pred b len = Inr (b + (k - 1) * unat (len div 2), len div 2)) \<and>
   (first_failing_probe 3 mem pred q b len k \<longrightarrow>
      q3_ary_step mem q pred b len = Inr (b + (k - 1) * unat (len div 3), len div 3)) \<and>
   (first_failing_probe 4 mem pred q b len k \<longrightarrow>
      q4_ary_step mem q pred b len = Inr (b + (k - 1) * unat (len div 4), len div 4)) \<and>
   (first_failing_probe 5 mem pred q b len k \<longrightarrow>
      q5_ary_step mem q pred b len = Inr (b + (k - 1) * unat (len div 5), len div 5)) \<and>
   (first_failing_probe 6 mem pred q b len k \<longrightarrow>
      q6_ary_step mem q pred b len = Inr (b + (k - 1) * unat (len div 6), len div 6))"
proof (intro conjI)
  show "first_failing_probe 2 mem pred q b len k \<longrightarrow>
      q2_ary_step mem q pred b len = Inr (b + (k - 1) * unat (len div 2), len div 2)"
    using q_ary_step_first_failing [of 2 mem pred q b len k]
    by (simp add: q2_ary_step_cascade)
  show "first_failing_probe 3 mem pred q b len k \<longrightarrow>
      q3_ary_step mem q pred b len = Inr (b + (k - 1) * unat (len div 3), len div 3)"
    using q_ary_step_first_failing [of 3 mem pred q b len k]
    by (simp add: q3_ary_step_cascade)
  show "first_failing_probe 4 mem pred q b len k \<longrightarrow>
      q4_ary_step mem q pred b len = Inr (b + (k - 1) * unat (len div 4), len div 4)"
    using q_ary_step_first_failing [of 4 mem pred q b len k]
    by (simp add: q4_ary_step_cascade)
  show "first_failing_probe 5 mem pred q b len k \<longrightarrow>
      q5_ary_step mem q pred b len = Inr (b + (k - 1) * unat (len div 5), len div 5)"
    using q_ary_step_first_failing [of 5 mem pred q b len k]
    by (simp add: q5_ary_step_cascade)
  show "first_failing_probe 6 mem pred q b len k \<longrightarrow>
      q6_ary_step mem q pred b len = Inr (b + (k - 1) * unat (len div 6), len div 6)"
    using q_ary_step_first_failing [of 6 mem pred q b len k]
    by (simp add: q6_ary_step_cascade)
qed

text \<open>
  The theorem on the fragmented sequence and the window \<open>{0, 13}\<close>. With 2 fragments
  and the query 7 the first probe fails; with the query 8 the second probe is the first
  to fail with 3 fragments, the third with 4, the fourth with 5 and with 6.
\<close>

theorem q_ary_step_first_failing_probe_witness:
  "first_failing_probe 2 fragmented_sequence (<) 7 0 13 1 \<and>
   q2_ary_step fragmented_sequence 7 (<) 0 13 = Inr (0, 6) \<and>
   first_failing_probe 3 fragmented_sequence (<) 8 0 13 2 \<and>
   q3_ary_step fragmented_sequence 8 (<) 0 13 = Inr (4, 4) \<and>
   first_failing_probe 4 fragmented_sequence (<) 8 0 13 3 \<and>
   q4_ary_step fragmented_sequence 8 (<) 0 13 = Inr (6, 3) \<and>
   first_failing_probe 5 fragmented_sequence (<) 8 0 13 4 \<and>
   q5_ary_step fragmented_sequence 8 (<) 0 13 = Inr (6, 2) \<and>
   first_failing_probe 6 fragmented_sequence (<) 8 0 13 4 \<and>
   q6_ary_step fragmented_sequence 8 (<) 0 13 = Inr (6, 2)"
proof -
  have h2: "first_failing_probe 2 fragmented_sequence (<) 7 0 13 1" by code_simp
  have h3: "first_failing_probe 3 fragmented_sequence (<) 8 0 13 2" by code_simp
  have h4: "first_failing_probe 4 fragmented_sequence (<) 8 0 13 3" by code_simp
  have h5: "first_failing_probe 5 fragmented_sequence (<) 8 0 13 4" by code_simp
  have h6: "first_failing_probe 6 fragmented_sequence (<) 8 0 13 4" by code_simp
  note t = q_ary_step_first_failing_probe [of fragmented_sequence "(<)" 8 0 13]
  have "q2_ary_step fragmented_sequence 7 (<) 0 13 = Inr (0, 6)"
    using q_ary_step_first_failing_probe [of fragmented_sequence "(<)" 7 0 13 1] h2 by simp
  moreover have "q3_ary_step fragmented_sequence 8 (<) 0 13 = Inr (4, 4)"
    using t [of 2] h3 by simp
  moreover have "q4_ary_step fragmented_sequence 8 (<) 0 13 = Inr (6, 3)"
    using t [of 3] h4 by simp
  moreover have "q5_ary_step fragmented_sequence 8 (<) 0 13 = Inr (6, 2)"
    using t [of 4] h5 by simp
  moreover have "q6_ary_step fragmented_sequence 8 (<) 0 13 = Inr (6, 2)"
    using t [of 4] h6 by simp
  ultimately show ?thesis using h2 h3 h4 h5 h6 by simp
qed

text \<open>
  C3 as the specification states it (the start unchanged, the length \<open>k\<close> fragments)
  fails whenever \<open>k > 1\<close>. With 3 fragments on the fragmented sequence and the query 8
  the second probe is the first to fail; the window becomes \<open>{4, 4}\<close>, and not
  \<open>{0, 2 * 4}\<close>.
\<close>

theorem q_ary_step_first_failing_probe_counterexample:
  "first_failing_probe 3 fragmented_sequence (<) 8 0 13 2 \<and>
   q3_ary_step fragmented_sequence 8 (<) 0 13 = Inr (4, 4) \<and>
   q3_ary_step fragmented_sequence 8 (<) 0 13 \<noteq> Inr (0, 2 * (13 div 3))"
proof -
  have "first_failing_probe 3 fragmented_sequence (<) 8 0 13 2" by code_simp
  moreover have "q3_ary_step fragmented_sequence 8 (<) 0 13 = Inr (4, 4)"
    by (simp add: q3_ary_step_def probe_def fragmented_sequence_def)
  ultimately show ?thesis by simp
qed

subsection \<open>C4: the last fragment takes the remainder\<close>

text \<open>
  C4. In every pass of the loop of every arity \<open>Q\<close> from 2 to 6 the fragment length is
  \<open>length div Q\<close>, rounded down. When all \<open>Q - 1\<close> probes pass, the window becomes the
  last fragment: it starts at \<open>begin + (Q - 1) * fragment_length\<close> and its length is
  \<open>length - (Q - 1) * fragment_length\<close>, which is \<open>length div Q + length mod Q\<close>. When
  the first probe fails, the window becomes the first fragment, of \<open>length div Q\<close>
  elements: the remainder goes to the last fragment and never to the first.
\<close>

theorem q_ary_step_last_fragment:
  "(all_probes_pass 2 mem pred q b len \<longrightarrow>
      q2_ary_step mem q pred b len = Inr (b + unat (len div 2), len - len div 2)) \<and>
   unat (len div 2) = unat len div 2 \<and>
   unat (len - len div 2) = unat len div 2 + unat len mod 2 \<and>
   (b + unat (len div 2) < length mem \<and> \<not> pred (mem ! (b + unat (len div 2))) q \<longrightarrow>
      q2_ary_step mem q pred b len = Inr (b, len div 2)) \<and>
   (all_probes_pass 3 mem pred q b len \<longrightarrow>
      q3_ary_step mem q pred b len = Inr (b + 2 * unat (len div 3), len - 2 * (len div 3))) \<and>
   unat (len div 3) = unat len div 3 \<and>
   unat (len - 2 * (len div 3)) = unat len div 3 + unat len mod 3 \<and>
   (b + unat (len div 3) < length mem \<and> \<not> pred (mem ! (b + unat (len div 3))) q \<longrightarrow>
      q3_ary_step mem q pred b len = Inr (b, len div 3)) \<and>
   (all_probes_pass 4 mem pred q b len \<longrightarrow>
      q4_ary_step mem q pred b len = Inr (b + 3 * unat (len div 4), len - 3 * (len div 4))) \<and>
   unat (len div 4) = unat len div 4 \<and>
   unat (len - 3 * (len div 4)) = unat len div 4 + unat len mod 4 \<and>
   (b + unat (len div 4) < length mem \<and> \<not> pred (mem ! (b + unat (len div 4))) q \<longrightarrow>
      q4_ary_step mem q pred b len = Inr (b, len div 4)) \<and>
   (all_probes_pass 5 mem pred q b len \<longrightarrow>
      q5_ary_step mem q pred b len = Inr (b + 4 * unat (len div 5), len - 4 * (len div 5))) \<and>
   unat (len div 5) = unat len div 5 \<and>
   unat (len - 4 * (len div 5)) = unat len div 5 + unat len mod 5 \<and>
   (b + unat (len div 5) < length mem \<and> \<not> pred (mem ! (b + unat (len div 5))) q \<longrightarrow>
      q5_ary_step mem q pred b len = Inr (b, len div 5)) \<and>
   (all_probes_pass 6 mem pred q b len \<longrightarrow>
      q6_ary_step mem q pred b len = Inr (b + 5 * unat (len div 6), len - 5 * (len div 6))) \<and>
   unat (len div 6) = unat len div 6 \<and>
   unat (len - 5 * (len div 6)) = unat len div 6 + unat len mod 6 \<and>
   (b + unat (len div 6) < length mem \<and> \<not> pred (mem ! (b + unat (len div 6))) q \<longrightarrow>
      q6_ary_step mem q pred b len = Inr (b, len div 6))"
proof (intro conjI)
  show "all_probes_pass 2 mem pred q b len \<longrightarrow>
      q2_ary_step mem q pred b len = Inr (b + unat (len div 2), len - len div 2)"
    using q_ary_step_all_pass [of 2 mem pred q b len]
    by (simp add: q2_ary_step_cascade)
  show "unat (len div 2) = unat len div 2"
    using unat_fragment_length [of 2 len] by simp
  show "unat (len - len div 2) = unat len div 2 + unat len mod 2"
    using unat_remainder_fragment [of 2 len] by simp
  show "b + unat (len div 2) < length mem \<and> \<not> pred (mem ! (b + unat (len div 2))) q \<longrightarrow>
      q2_ary_step mem q pred b len = Inr (b, len div 2)"
  proof
    assume "b + unat (len div 2) < length mem \<and> \<not> pred (mem ! (b + unat (len div 2))) q"
    then have "first_failing_probe 2 mem pred q b len 1"
      by (simp add: first_failing_probe_def)
    from q_ary_step_first_failing [OF this]
    show "q2_ary_step mem q pred b len = Inr (b, len div 2)"
      by (simp add: q2_ary_step_cascade)
  qed
  show "all_probes_pass 3 mem pred q b len \<longrightarrow>
      q3_ary_step mem q pred b len = Inr (b + 2 * unat (len div 3), len - 2 * (len div 3))"
    using q_ary_step_all_pass [of 3 mem pred q b len]
    by (simp add: q3_ary_step_cascade)
  show "unat (len div 3) = unat len div 3"
    using unat_fragment_length [of 3 len] by simp
  show "unat (len - 2 * (len div 3)) = unat len div 3 + unat len mod 3"
    using unat_remainder_fragment [of 3 len] by simp
  show "b + unat (len div 3) < length mem \<and> \<not> pred (mem ! (b + unat (len div 3))) q \<longrightarrow>
      q3_ary_step mem q pred b len = Inr (b, len div 3)"
  proof
    assume "b + unat (len div 3) < length mem \<and> \<not> pred (mem ! (b + unat (len div 3))) q"
    then have "first_failing_probe 3 mem pred q b len 1"
      by (simp add: first_failing_probe_def)
    from q_ary_step_first_failing [OF this]
    show "q3_ary_step mem q pred b len = Inr (b, len div 3)"
      by (simp add: q3_ary_step_cascade)
  qed
  show "all_probes_pass 4 mem pred q b len \<longrightarrow>
      q4_ary_step mem q pred b len = Inr (b + 3 * unat (len div 4), len - 3 * (len div 4))"
    using q_ary_step_all_pass [of 4 mem pred q b len]
    by (simp add: q4_ary_step_cascade)
  show "unat (len div 4) = unat len div 4"
    using unat_fragment_length [of 4 len] by simp
  show "unat (len - 3 * (len div 4)) = unat len div 4 + unat len mod 4"
    using unat_remainder_fragment [of 4 len] by simp
  show "b + unat (len div 4) < length mem \<and> \<not> pred (mem ! (b + unat (len div 4))) q \<longrightarrow>
      q4_ary_step mem q pred b len = Inr (b, len div 4)"
  proof
    assume "b + unat (len div 4) < length mem \<and> \<not> pred (mem ! (b + unat (len div 4))) q"
    then have "first_failing_probe 4 mem pred q b len 1"
      by (simp add: first_failing_probe_def)
    from q_ary_step_first_failing [OF this]
    show "q4_ary_step mem q pred b len = Inr (b, len div 4)"
      by (simp add: q4_ary_step_cascade)
  qed
  show "all_probes_pass 5 mem pred q b len \<longrightarrow>
      q5_ary_step mem q pred b len = Inr (b + 4 * unat (len div 5), len - 4 * (len div 5))"
    using q_ary_step_all_pass [of 5 mem pred q b len]
    by (simp add: q5_ary_step_cascade)
  show "unat (len div 5) = unat len div 5"
    using unat_fragment_length [of 5 len] by simp
  show "unat (len - 4 * (len div 5)) = unat len div 5 + unat len mod 5"
    using unat_remainder_fragment [of 5 len] by simp
  show "b + unat (len div 5) < length mem \<and> \<not> pred (mem ! (b + unat (len div 5))) q \<longrightarrow>
      q5_ary_step mem q pred b len = Inr (b, len div 5)"
  proof
    assume "b + unat (len div 5) < length mem \<and> \<not> pred (mem ! (b + unat (len div 5))) q"
    then have "first_failing_probe 5 mem pred q b len 1"
      by (simp add: first_failing_probe_def)
    from q_ary_step_first_failing [OF this]
    show "q5_ary_step mem q pred b len = Inr (b, len div 5)"
      by (simp add: q5_ary_step_cascade)
  qed
  show "all_probes_pass 6 mem pred q b len \<longrightarrow>
      q6_ary_step mem q pred b len = Inr (b + 5 * unat (len div 6), len - 5 * (len div 6))"
    using q_ary_step_all_pass [of 6 mem pred q b len]
    by (simp add: q6_ary_step_cascade)
  show "unat (len div 6) = unat len div 6"
    using unat_fragment_length [of 6 len] by simp
  show "unat (len - 5 * (len div 6)) = unat len div 6 + unat len mod 6"
    using unat_remainder_fragment [of 6 len] by simp
  show "b + unat (len div 6) < length mem \<and> \<not> pred (mem ! (b + unat (len div 6))) q \<longrightarrow>
      q6_ary_step mem q pred b len = Inr (b, len div 6)"
  proof
    assume "b + unat (len div 6) < length mem \<and> \<not> pred (mem ! (b + unat (len div 6))) q"
    then have "first_failing_probe 6 mem pred q b len 1"
      by (simp add: first_failing_probe_def)
    from q_ary_step_first_failing [OF this]
    show "q6_ary_step mem q pred b len = Inr (b, len div 6)"
      by (simp add: q6_ary_step_cascade)
  qed
qed

text \<open>
  The theorem on the ordinary sequence and the window \<open>{0, 13}\<close>. Every element is less
  than 40, so all probes pass, and none is less than 1, so the first probe fails. With 3
  fragments of 4 elements the last fragment starts at 8 and has \<open>4 + 1\<close> elements.
\<close>

theorem q_ary_step_last_fragment_witness:
  "all_probes_pass 2 ordinary_sequence (<) 40 0 13 \<and>
   q2_ary_step ordinary_sequence 40 (<) 0 13 = Inr (6, 7) \<and>
   q2_ary_step ordinary_sequence 1 (<) 0 13 = Inr (0, 6) \<and>
   all_probes_pass 3 ordinary_sequence (<) 40 0 13 \<and>
   q3_ary_step ordinary_sequence 40 (<) 0 13 = Inr (8, 5) \<and>
   q3_ary_step ordinary_sequence 1 (<) 0 13 = Inr (0, 4) \<and>
   all_probes_pass 4 ordinary_sequence (<) 40 0 13 \<and>
   q4_ary_step ordinary_sequence 40 (<) 0 13 = Inr (9, 4) \<and>
   q4_ary_step ordinary_sequence 1 (<) 0 13 = Inr (0, 3) \<and>
   all_probes_pass 5 ordinary_sequence (<) 40 0 13 \<and>
   q5_ary_step ordinary_sequence 40 (<) 0 13 = Inr (8, 5) \<and>
   q5_ary_step ordinary_sequence 1 (<) 0 13 = Inr (0, 2) \<and>
   all_probes_pass 6 ordinary_sequence (<) 40 0 13 \<and>
   q6_ary_step ordinary_sequence 40 (<) 0 13 = Inr (10, 3) \<and>
   q6_ary_step ordinary_sequence 1 (<) 0 13 = Inr (0, 2)"
proof -
  have h2: "all_probes_pass 2 ordinary_sequence (<) 40 0 13" by code_simp
  have f2: "0 + unat ((13::length_t) div 2) < length ordinary_sequence \<and>
      \<not> ordinary_sequence ! (0 + unat ((13::length_t) div 2)) < 1" by code_simp
  have h3: "all_probes_pass 3 ordinary_sequence (<) 40 0 13" by code_simp
  have f3: "0 + unat ((13::length_t) div 3) < length ordinary_sequence \<and>
      \<not> ordinary_sequence ! (0 + unat ((13::length_t) div 3)) < 1" by code_simp
  have h4: "all_probes_pass 4 ordinary_sequence (<) 40 0 13" by code_simp
  have f4: "0 + unat ((13::length_t) div 4) < length ordinary_sequence \<and>
      \<not> ordinary_sequence ! (0 + unat ((13::length_t) div 4)) < 1" by code_simp
  have h5: "all_probes_pass 5 ordinary_sequence (<) 40 0 13" by code_simp
  have f5: "0 + unat ((13::length_t) div 5) < length ordinary_sequence \<and>
      \<not> ordinary_sequence ! (0 + unat ((13::length_t) div 5)) < 1" by code_simp
  have h6: "all_probes_pass 6 ordinary_sequence (<) 40 0 13" by code_simp
  have f6: "0 + unat ((13::length_t) div 6) < length ordinary_sequence \<and>
      \<not> ordinary_sequence ! (0 + unat ((13::length_t) div 6)) < 1" by code_simp
  note t = q_ary_step_last_fragment [of ordinary_sequence "(<)" 40 0 13]
  note u = q_ary_step_last_fragment [of ordinary_sequence "(<)" 1 0 13]
  have "q2_ary_step ordinary_sequence 40 (<) 0 13 = Inr (6, 7)"
    using t h2 by simp
  moreover have "q2_ary_step ordinary_sequence 1 (<) 0 13 = Inr (0, 6)"
    using u f2 by simp
  moreover have "q3_ary_step ordinary_sequence 40 (<) 0 13 = Inr (8, 5)"
    using t h3 by simp
  moreover have "q3_ary_step ordinary_sequence 1 (<) 0 13 = Inr (0, 4)"
    using u f3 by simp
  moreover have "q4_ary_step ordinary_sequence 40 (<) 0 13 = Inr (9, 4)"
    using t h4 by simp
  moreover have "q4_ary_step ordinary_sequence 1 (<) 0 13 = Inr (0, 3)"
    using u f4 by simp
  moreover have "q5_ary_step ordinary_sequence 40 (<) 0 13 = Inr (8, 5)"
    using t h5 by simp
  moreover have "q5_ary_step ordinary_sequence 1 (<) 0 13 = Inr (0, 2)"
    using u f5 by simp
  moreover have "q6_ary_step ordinary_sequence 40 (<) 0 13 = Inr (10, 3)"
    using t h6 by simp
  moreover have "q6_ary_step ordinary_sequence 1 (<) 0 13 = Inr (0, 2)"
    using u f6 by simp
  ultimately show ?thesis using h2 h3 h4 h5 h6 by simp
qed

subsection \<open>C5: the threshold and its default\<close>

text \<open>
  C5. For every arity \<open>Q\<close> from 2 to 6 the threshold of the global parameter struct is
  \<open>2 * Q\<close>: 4, 6, 8, 10 and 12. On a range \<open>[b, e)\<close> of an array whose length (as
  \<^verbatim>\<open>length_t\<close>) is less than the threshold, the range is not fragmented and the search
  is a linear scan: it returns the first position of the range at which the test fails,
  and the end of the range when it fails nowhere, whether the range is sorted or not.
  With a threshold of at least \<open>Q\<close> (the default is one) the loop fragments as long as
  the window has at least the threshold's length: it ends on a window \<open>w\<close> inside the
  range that is shorter than the threshold, that is shorter than the range when the
  range has at least the threshold's length and is the range itself otherwise; and the
  search returns the first position of \<open>w\<close> at which the test fails, and the end of
  \<open>w\<close> when it fails nowhere there.
\<close>

theorem q_ary_search_threshold:
  assumes "b \<le> e" and "e \<le> length mem"
  shows "q2_to_linear_threshold q2_ary_search_parameters = 4 \<and>
         (range_length b e < q2_to_linear_threshold P2 \<longrightarrow>
            (\<exists>r. q2_ary_search P2 mem b e q pred = Some (Inr r) \<and>
                 partition_point mem pred q b (b + unat (range_length b e)) r)) \<and>
         (2 \<le> q2_to_linear_threshold P2 \<longrightarrow>
            (\<exists>w r. q2_ary_loop (q2_to_linear_threshold P2) mem q pred b (range_length b e)
                   = Some (Inr w) \<and>
                 snd w < q2_to_linear_threshold P2 \<and>
                 b \<le> fst w \<and> fst w + unat (snd w) \<le> b + unat (range_length b e) \<and>
                 (q2_to_linear_threshold P2 \<le> range_length b e \<longrightarrow>
                    unat (snd w) < unat (range_length b e)) \<and>
                 (range_length b e < q2_to_linear_threshold P2 \<longrightarrow> w = (b, range_length b e)) \<and>
                 q2_ary_search P2 mem b e q pred = Some (Inr r) \<and>
                 partition_point mem pred q (fst w) (fst w + unat (snd w)) r)) \<and>
         q3_to_linear_threshold q3_ary_search_parameters = 6 \<and>
         (range_length b e < q3_to_linear_threshold P3 \<longrightarrow>
            (\<exists>r. q3_ary_search P3 mem b e q pred = Some (Inr r) \<and>
                 partition_point mem pred q b (b + unat (range_length b e)) r)) \<and>
         (3 \<le> q3_to_linear_threshold P3 \<longrightarrow>
            (\<exists>w r. q3_ary_loop (q3_to_linear_threshold P3) mem q pred b (range_length b e)
                   = Some (Inr w) \<and>
                 snd w < q3_to_linear_threshold P3 \<and>
                 b \<le> fst w \<and> fst w + unat (snd w) \<le> b + unat (range_length b e) \<and>
                 (q3_to_linear_threshold P3 \<le> range_length b e \<longrightarrow>
                    unat (snd w) < unat (range_length b e)) \<and>
                 (range_length b e < q3_to_linear_threshold P3 \<longrightarrow> w = (b, range_length b e)) \<and>
                 q3_ary_search P3 mem b e q pred = Some (Inr r) \<and>
                 partition_point mem pred q (fst w) (fst w + unat (snd w)) r)) \<and>
         q4_to_linear_threshold q4_ary_search_parameters = 8 \<and>
         (range_length b e < q4_to_linear_threshold P4 \<longrightarrow>
            (\<exists>r. q4_ary_search P4 mem b e q pred = Some (Inr r) \<and>
                 partition_point mem pred q b (b + unat (range_length b e)) r)) \<and>
         (4 \<le> q4_to_linear_threshold P4 \<longrightarrow>
            (\<exists>w r. q4_ary_loop (q4_to_linear_threshold P4) mem q pred b (range_length b e)
                   = Some (Inr w) \<and>
                 snd w < q4_to_linear_threshold P4 \<and>
                 b \<le> fst w \<and> fst w + unat (snd w) \<le> b + unat (range_length b e) \<and>
                 (q4_to_linear_threshold P4 \<le> range_length b e \<longrightarrow>
                    unat (snd w) < unat (range_length b e)) \<and>
                 (range_length b e < q4_to_linear_threshold P4 \<longrightarrow> w = (b, range_length b e)) \<and>
                 q4_ary_search P4 mem b e q pred = Some (Inr r) \<and>
                 partition_point mem pred q (fst w) (fst w + unat (snd w)) r)) \<and>
         q5_to_linear_threshold q5_ary_search_parameters = 10 \<and>
         (range_length b e < q5_to_linear_threshold P5 \<longrightarrow>
            (\<exists>r. q5_ary_search P5 mem b e q pred = Some (Inr r) \<and>
                 partition_point mem pred q b (b + unat (range_length b e)) r)) \<and>
         (5 \<le> q5_to_linear_threshold P5 \<longrightarrow>
            (\<exists>w r. q5_ary_loop (q5_to_linear_threshold P5) mem q pred b (range_length b e)
                   = Some (Inr w) \<and>
                 snd w < q5_to_linear_threshold P5 \<and>
                 b \<le> fst w \<and> fst w + unat (snd w) \<le> b + unat (range_length b e) \<and>
                 (q5_to_linear_threshold P5 \<le> range_length b e \<longrightarrow>
                    unat (snd w) < unat (range_length b e)) \<and>
                 (range_length b e < q5_to_linear_threshold P5 \<longrightarrow> w = (b, range_length b e)) \<and>
                 q5_ary_search P5 mem b e q pred = Some (Inr r) \<and>
                 partition_point mem pred q (fst w) (fst w + unat (snd w)) r)) \<and>
         q6_to_linear_threshold q6_ary_search_parameters = 12 \<and>
         (range_length b e < q6_to_linear_threshold P6 \<longrightarrow>
            (\<exists>r. q6_ary_search P6 mem b e q pred = Some (Inr r) \<and>
                 partition_point mem pred q b (b + unat (range_length b e)) r)) \<and>
         (6 \<le> q6_to_linear_threshold P6 \<longrightarrow>
            (\<exists>w r. q6_ary_loop (q6_to_linear_threshold P6) mem q pred b (range_length b e)
                   = Some (Inr w) \<and>
                 snd w < q6_to_linear_threshold P6 \<and>
                 b \<le> fst w \<and> fst w + unat (snd w) \<le> b + unat (range_length b e) \<and>
                 (q6_to_linear_threshold P6 \<le> range_length b e \<longrightarrow>
                    unat (snd w) < unat (range_length b e)) \<and>
                 (range_length b e < q6_to_linear_threshold P6 \<longrightarrow> w = (b, range_length b e)) \<and>
                 q6_ary_search P6 mem b e q pred = Some (Inr r) \<and>
                 partition_point mem pred q (fst w) (fst w + unat (snd w)) r))"
proof (intro conjI)
  show "q2_to_linear_threshold q2_ary_search_parameters = 4"
    by (simp add: q2_ary_search_parameters_def)
  show "range_length b e < q2_to_linear_threshold P2 \<longrightarrow>
            (\<exists>r. q2_ary_search P2 mem b e q pred = Some (Inr r) \<and>
                 partition_point mem pred q b (b + unat (range_length b e)) r)"
  proof
    assume "range_length b e < q2_to_linear_threshold P2"
    from q_ary_search_below_threshold [where L = "q2_ary_loop (q2_to_linear_threshold P2) mem q pred",
        OF q2_ary_loop_unfold assms this]
    show "\<exists>r. q2_ary_search P2 mem b e q pred = Some (Inr r) \<and>
                 partition_point mem pred q b (b + unat (range_length b e)) r"
      unfolding q2_ary_search_def .
  qed
  show "2 \<le> q2_to_linear_threshold P2 \<longrightarrow>
            (\<exists>w r. q2_ary_loop (q2_to_linear_threshold P2) mem q pred b (range_length b e)
                   = Some (Inr w) \<and>
                 snd w < q2_to_linear_threshold P2 \<and>
                 b \<le> fst w \<and> fst w + unat (snd w) \<le> b + unat (range_length b e) \<and>
                 (q2_to_linear_threshold P2 \<le> range_length b e \<longrightarrow>
                    unat (snd w) < unat (range_length b e)) \<and>
                 (range_length b e < q2_to_linear_threshold P2 \<longrightarrow> w = (b, range_length b e)) \<and>
                 q2_ary_search P2 mem b e q pred = Some (Inr r) \<and>
                 partition_point mem pred q (fst w) (fst w + unat (snd w)) r)"
  proof
    assume "2 \<le> q2_to_linear_threshold P2"
    then have t: "2 \<le> unat (q2_to_linear_threshold P2)" by (rule q2_threshold)
    show "\<exists>w r. q2_ary_loop (q2_to_linear_threshold P2) mem q pred b (range_length b e)
                   = Some (Inr w) \<and>
                 snd w < q2_to_linear_threshold P2 \<and>
                 b \<le> fst w \<and> fst w + unat (snd w) \<le> b + unat (range_length b e) \<and>
                 (q2_to_linear_threshold P2 \<le> range_length b e \<longrightarrow>
                    unat (snd w) < unat (range_length b e)) \<and>
                 (range_length b e < q2_to_linear_threshold P2 \<longrightarrow> w = (b, range_length b e)) \<and>
                 q2_ary_search P2 mem b e q pred = Some (Inr r) \<and>
                 partition_point mem pred q (fst w) (fst w + unat (snd w)) r"
      unfolding q2_ary_search_def
      by (rule q_ary_search_narrows_then_scans [where Q = 2, OF q2_ary_loop_unfold _ t assms])
         simp
  qed
  show "q3_to_linear_threshold q3_ary_search_parameters = 6"
    by (simp add: q3_ary_search_parameters_def)
  show "range_length b e < q3_to_linear_threshold P3 \<longrightarrow>
            (\<exists>r. q3_ary_search P3 mem b e q pred = Some (Inr r) \<and>
                 partition_point mem pred q b (b + unat (range_length b e)) r)"
  proof
    assume "range_length b e < q3_to_linear_threshold P3"
    from q_ary_search_below_threshold [where L = "q3_ary_loop (q3_to_linear_threshold P3) mem q pred",
        OF q3_ary_loop_unfold assms this]
    show "\<exists>r. q3_ary_search P3 mem b e q pred = Some (Inr r) \<and>
                 partition_point mem pred q b (b + unat (range_length b e)) r"
      unfolding q3_ary_search_def .
  qed
  show "3 \<le> q3_to_linear_threshold P3 \<longrightarrow>
            (\<exists>w r. q3_ary_loop (q3_to_linear_threshold P3) mem q pred b (range_length b e)
                   = Some (Inr w) \<and>
                 snd w < q3_to_linear_threshold P3 \<and>
                 b \<le> fst w \<and> fst w + unat (snd w) \<le> b + unat (range_length b e) \<and>
                 (q3_to_linear_threshold P3 \<le> range_length b e \<longrightarrow>
                    unat (snd w) < unat (range_length b e)) \<and>
                 (range_length b e < q3_to_linear_threshold P3 \<longrightarrow> w = (b, range_length b e)) \<and>
                 q3_ary_search P3 mem b e q pred = Some (Inr r) \<and>
                 partition_point mem pred q (fst w) (fst w + unat (snd w)) r)"
  proof
    assume "3 \<le> q3_to_linear_threshold P3"
    then have t: "3 \<le> unat (q3_to_linear_threshold P3)" by (rule q3_threshold)
    show "\<exists>w r. q3_ary_loop (q3_to_linear_threshold P3) mem q pred b (range_length b e)
                   = Some (Inr w) \<and>
                 snd w < q3_to_linear_threshold P3 \<and>
                 b \<le> fst w \<and> fst w + unat (snd w) \<le> b + unat (range_length b e) \<and>
                 (q3_to_linear_threshold P3 \<le> range_length b e \<longrightarrow>
                    unat (snd w) < unat (range_length b e)) \<and>
                 (range_length b e < q3_to_linear_threshold P3 \<longrightarrow> w = (b, range_length b e)) \<and>
                 q3_ary_search P3 mem b e q pred = Some (Inr r) \<and>
                 partition_point mem pred q (fst w) (fst w + unat (snd w)) r"
      unfolding q3_ary_search_def
      by (rule q_ary_search_narrows_then_scans [where Q = 3, OF q3_ary_loop_unfold _ t assms])
         simp
  qed
  show "q4_to_linear_threshold q4_ary_search_parameters = 8"
    by (simp add: q4_ary_search_parameters_def)
  show "range_length b e < q4_to_linear_threshold P4 \<longrightarrow>
            (\<exists>r. q4_ary_search P4 mem b e q pred = Some (Inr r) \<and>
                 partition_point mem pred q b (b + unat (range_length b e)) r)"
  proof
    assume "range_length b e < q4_to_linear_threshold P4"
    from q_ary_search_below_threshold [where L = "q4_ary_loop (q4_to_linear_threshold P4) mem q pred",
        OF q4_ary_loop_unfold assms this]
    show "\<exists>r. q4_ary_search P4 mem b e q pred = Some (Inr r) \<and>
                 partition_point mem pred q b (b + unat (range_length b e)) r"
      unfolding q4_ary_search_def .
  qed
  show "4 \<le> q4_to_linear_threshold P4 \<longrightarrow>
            (\<exists>w r. q4_ary_loop (q4_to_linear_threshold P4) mem q pred b (range_length b e)
                   = Some (Inr w) \<and>
                 snd w < q4_to_linear_threshold P4 \<and>
                 b \<le> fst w \<and> fst w + unat (snd w) \<le> b + unat (range_length b e) \<and>
                 (q4_to_linear_threshold P4 \<le> range_length b e \<longrightarrow>
                    unat (snd w) < unat (range_length b e)) \<and>
                 (range_length b e < q4_to_linear_threshold P4 \<longrightarrow> w = (b, range_length b e)) \<and>
                 q4_ary_search P4 mem b e q pred = Some (Inr r) \<and>
                 partition_point mem pred q (fst w) (fst w + unat (snd w)) r)"
  proof
    assume "4 \<le> q4_to_linear_threshold P4"
    then have t: "4 \<le> unat (q4_to_linear_threshold P4)" by (rule q4_threshold)
    show "\<exists>w r. q4_ary_loop (q4_to_linear_threshold P4) mem q pred b (range_length b e)
                   = Some (Inr w) \<and>
                 snd w < q4_to_linear_threshold P4 \<and>
                 b \<le> fst w \<and> fst w + unat (snd w) \<le> b + unat (range_length b e) \<and>
                 (q4_to_linear_threshold P4 \<le> range_length b e \<longrightarrow>
                    unat (snd w) < unat (range_length b e)) \<and>
                 (range_length b e < q4_to_linear_threshold P4 \<longrightarrow> w = (b, range_length b e)) \<and>
                 q4_ary_search P4 mem b e q pred = Some (Inr r) \<and>
                 partition_point mem pred q (fst w) (fst w + unat (snd w)) r"
      unfolding q4_ary_search_def
      by (rule q_ary_search_narrows_then_scans [where Q = 4, OF q4_ary_loop_unfold _ t assms])
         simp
  qed
  show "q5_to_linear_threshold q5_ary_search_parameters = 10"
    by (simp add: q5_ary_search_parameters_def)
  show "range_length b e < q5_to_linear_threshold P5 \<longrightarrow>
            (\<exists>r. q5_ary_search P5 mem b e q pred = Some (Inr r) \<and>
                 partition_point mem pred q b (b + unat (range_length b e)) r)"
  proof
    assume "range_length b e < q5_to_linear_threshold P5"
    from q_ary_search_below_threshold [where L = "q5_ary_loop (q5_to_linear_threshold P5) mem q pred",
        OF q5_ary_loop_unfold assms this]
    show "\<exists>r. q5_ary_search P5 mem b e q pred = Some (Inr r) \<and>
                 partition_point mem pred q b (b + unat (range_length b e)) r"
      unfolding q5_ary_search_def .
  qed
  show "5 \<le> q5_to_linear_threshold P5 \<longrightarrow>
            (\<exists>w r. q5_ary_loop (q5_to_linear_threshold P5) mem q pred b (range_length b e)
                   = Some (Inr w) \<and>
                 snd w < q5_to_linear_threshold P5 \<and>
                 b \<le> fst w \<and> fst w + unat (snd w) \<le> b + unat (range_length b e) \<and>
                 (q5_to_linear_threshold P5 \<le> range_length b e \<longrightarrow>
                    unat (snd w) < unat (range_length b e)) \<and>
                 (range_length b e < q5_to_linear_threshold P5 \<longrightarrow> w = (b, range_length b e)) \<and>
                 q5_ary_search P5 mem b e q pred = Some (Inr r) \<and>
                 partition_point mem pred q (fst w) (fst w + unat (snd w)) r)"
  proof
    assume "5 \<le> q5_to_linear_threshold P5"
    then have t: "5 \<le> unat (q5_to_linear_threshold P5)" by (rule q5_threshold)
    show "\<exists>w r. q5_ary_loop (q5_to_linear_threshold P5) mem q pred b (range_length b e)
                   = Some (Inr w) \<and>
                 snd w < q5_to_linear_threshold P5 \<and>
                 b \<le> fst w \<and> fst w + unat (snd w) \<le> b + unat (range_length b e) \<and>
                 (q5_to_linear_threshold P5 \<le> range_length b e \<longrightarrow>
                    unat (snd w) < unat (range_length b e)) \<and>
                 (range_length b e < q5_to_linear_threshold P5 \<longrightarrow> w = (b, range_length b e)) \<and>
                 q5_ary_search P5 mem b e q pred = Some (Inr r) \<and>
                 partition_point mem pred q (fst w) (fst w + unat (snd w)) r"
      unfolding q5_ary_search_def
      by (rule q_ary_search_narrows_then_scans [where Q = 5, OF q5_ary_loop_unfold _ t assms])
         simp
  qed
  show "q6_to_linear_threshold q6_ary_search_parameters = 12"
    by (simp add: q6_ary_search_parameters_def)
  show "range_length b e < q6_to_linear_threshold P6 \<longrightarrow>
            (\<exists>r. q6_ary_search P6 mem b e q pred = Some (Inr r) \<and>
                 partition_point mem pred q b (b + unat (range_length b e)) r)"
  proof
    assume "range_length b e < q6_to_linear_threshold P6"
    from q_ary_search_below_threshold [where L = "q6_ary_loop (q6_to_linear_threshold P6) mem q pred",
        OF q6_ary_loop_unfold assms this]
    show "\<exists>r. q6_ary_search P6 mem b e q pred = Some (Inr r) \<and>
                 partition_point mem pred q b (b + unat (range_length b e)) r"
      unfolding q6_ary_search_def .
  qed
  show "6 \<le> q6_to_linear_threshold P6 \<longrightarrow>
            (\<exists>w r. q6_ary_loop (q6_to_linear_threshold P6) mem q pred b (range_length b e)
                   = Some (Inr w) \<and>
                 snd w < q6_to_linear_threshold P6 \<and>
                 b \<le> fst w \<and> fst w + unat (snd w) \<le> b + unat (range_length b e) \<and>
                 (q6_to_linear_threshold P6 \<le> range_length b e \<longrightarrow>
                    unat (snd w) < unat (range_length b e)) \<and>
                 (range_length b e < q6_to_linear_threshold P6 \<longrightarrow> w = (b, range_length b e)) \<and>
                 q6_ary_search P6 mem b e q pred = Some (Inr r) \<and>
                 partition_point mem pred q (fst w) (fst w + unat (snd w)) r)"
  proof
    assume "6 \<le> q6_to_linear_threshold P6"
    then have t: "6 \<le> unat (q6_to_linear_threshold P6)" by (rule q6_threshold)
    show "\<exists>w r. q6_ary_loop (q6_to_linear_threshold P6) mem q pred b (range_length b e)
                   = Some (Inr w) \<and>
                 snd w < q6_to_linear_threshold P6 \<and>
                 b \<le> fst w \<and> fst w + unat (snd w) \<le> b + unat (range_length b e) \<and>
                 (q6_to_linear_threshold P6 \<le> range_length b e \<longrightarrow>
                    unat (snd w) < unat (range_length b e)) \<and>
                 (range_length b e < q6_to_linear_threshold P6 \<longrightarrow> w = (b, range_length b e)) \<and>
                 q6_ary_search P6 mem b e q pred = Some (Inr r) \<and>
                 partition_point mem pred q (fst w) (fst w + unat (snd w)) r"
      unfolding q6_ary_search_def
      by (rule q_ary_search_narrows_then_scans [where Q = 6, OF q6_ary_loop_unfold _ t assms])
         simp
  qed
qed

text \<open>
  The theorem with the default thresholds. The 3 elements 1, 9, 2 are fewer than every
  threshold and not sorted: the scan for 5 passes the first and stops at the second. The
  13 elements of the ordinary sequence are at least every threshold: the loops narrow
  the window to 3, 4, 3, 2 and 2 elements, and the scan from there stops at 7.
\<close>

theorem q_ary_search_threshold_witness:
  "(0::nat) \<le> 3 \<and> 3 \<le> length [1, 9, 2 :: int] \<and>
   (0::nat) \<le> 13 \<and> 13 \<le> length ordinary_sequence \<and>
   range_length 0 3 < q2_to_linear_threshold q2_ary_search_parameters \<and>
   (\<exists>r. q2_ary_search q2_ary_search_parameters [1, 9, 2 :: int] 0 3 5 (<) = Some (Inr r) \<and>
        partition_point [1, 9, 2 :: int] (<) 5 0 (0 + unat (range_length 0 3)) r) \<and>
   q2_ary_search q2_ary_search_parameters [1, 9, 2 :: int] 0 3 5 (<) = Some (Inr 1) \<and>
   2 \<le> q2_to_linear_threshold q2_ary_search_parameters \<and>
   (\<exists>w r. q2_ary_loop (q2_to_linear_threshold q2_ary_search_parameters) ordinary_sequence 19 (<) 0 (range_length 0 13)
                   = Some (Inr w) \<and>
          snd w < q2_to_linear_threshold q2_ary_search_parameters \<and>
          0 \<le> fst w \<and> fst w + unat (snd w) \<le> 0 + unat (range_length 0 13) \<and>
          (q2_to_linear_threshold q2_ary_search_parameters \<le> range_length 0 13 \<longrightarrow>
             unat (snd w) < unat (range_length 0 13)) \<and>
          (range_length 0 13 < q2_to_linear_threshold q2_ary_search_parameters \<longrightarrow> w = (0, range_length 0 13)) \<and>
          q2_ary_search q2_ary_search_parameters ordinary_sequence 0 13 19 (<) = Some (Inr r) \<and>
          partition_point ordinary_sequence (<) 19 (fst w) (fst w + unat (snd w)) r) \<and>
   q2_ary_loop (q2_to_linear_threshold q2_ary_search_parameters) ordinary_sequence 19 (<) 0 (range_length 0 13) = Some (Inr (6, 3)) \<and>
   q2_ary_search q2_ary_search_parameters ordinary_sequence 0 13 19 (<) = Some (Inr 7) \<and>
   range_length 0 3 < q3_to_linear_threshold q3_ary_search_parameters \<and>
   (\<exists>r. q3_ary_search q3_ary_search_parameters [1, 9, 2 :: int] 0 3 5 (<) = Some (Inr r) \<and>
        partition_point [1, 9, 2 :: int] (<) 5 0 (0 + unat (range_length 0 3)) r) \<and>
   q3_ary_search q3_ary_search_parameters [1, 9, 2 :: int] 0 3 5 (<) = Some (Inr 1) \<and>
   3 \<le> q3_to_linear_threshold q3_ary_search_parameters \<and>
   (\<exists>w r. q3_ary_loop (q3_to_linear_threshold q3_ary_search_parameters) ordinary_sequence 19 (<) 0 (range_length 0 13)
                   = Some (Inr w) \<and>
          snd w < q3_to_linear_threshold q3_ary_search_parameters \<and>
          0 \<le> fst w \<and> fst w + unat (snd w) \<le> 0 + unat (range_length 0 13) \<and>
          (q3_to_linear_threshold q3_ary_search_parameters \<le> range_length 0 13 \<longrightarrow>
             unat (snd w) < unat (range_length 0 13)) \<and>
          (range_length 0 13 < q3_to_linear_threshold q3_ary_search_parameters \<longrightarrow> w = (0, range_length 0 13)) \<and>
          q3_ary_search q3_ary_search_parameters ordinary_sequence 0 13 19 (<) = Some (Inr r) \<and>
          partition_point ordinary_sequence (<) 19 (fst w) (fst w + unat (snd w)) r) \<and>
   q3_ary_loop (q3_to_linear_threshold q3_ary_search_parameters) ordinary_sequence 19 (<) 0 (range_length 0 13) = Some (Inr (4, 4)) \<and>
   q3_ary_search q3_ary_search_parameters ordinary_sequence 0 13 19 (<) = Some (Inr 7) \<and>
   range_length 0 3 < q4_to_linear_threshold q4_ary_search_parameters \<and>
   (\<exists>r. q4_ary_search q4_ary_search_parameters [1, 9, 2 :: int] 0 3 5 (<) = Some (Inr r) \<and>
        partition_point [1, 9, 2 :: int] (<) 5 0 (0 + unat (range_length 0 3)) r) \<and>
   q4_ary_search q4_ary_search_parameters [1, 9, 2 :: int] 0 3 5 (<) = Some (Inr 1) \<and>
   4 \<le> q4_to_linear_threshold q4_ary_search_parameters \<and>
   (\<exists>w r. q4_ary_loop (q4_to_linear_threshold q4_ary_search_parameters) ordinary_sequence 19 (<) 0 (range_length 0 13)
                   = Some (Inr w) \<and>
          snd w < q4_to_linear_threshold q4_ary_search_parameters \<and>
          0 \<le> fst w \<and> fst w + unat (snd w) \<le> 0 + unat (range_length 0 13) \<and>
          (q4_to_linear_threshold q4_ary_search_parameters \<le> range_length 0 13 \<longrightarrow>
             unat (snd w) < unat (range_length 0 13)) \<and>
          (range_length 0 13 < q4_to_linear_threshold q4_ary_search_parameters \<longrightarrow> w = (0, range_length 0 13)) \<and>
          q4_ary_search q4_ary_search_parameters ordinary_sequence 0 13 19 (<) = Some (Inr r) \<and>
          partition_point ordinary_sequence (<) 19 (fst w) (fst w + unat (snd w)) r) \<and>
   q4_ary_loop (q4_to_linear_threshold q4_ary_search_parameters) ordinary_sequence 19 (<) 0 (range_length 0 13) = Some (Inr (6, 3)) \<and>
   q4_ary_search q4_ary_search_parameters ordinary_sequence 0 13 19 (<) = Some (Inr 7) \<and>
   range_length 0 3 < q5_to_linear_threshold q5_ary_search_parameters \<and>
   (\<exists>r. q5_ary_search q5_ary_search_parameters [1, 9, 2 :: int] 0 3 5 (<) = Some (Inr r) \<and>
        partition_point [1, 9, 2 :: int] (<) 5 0 (0 + unat (range_length 0 3)) r) \<and>
   q5_ary_search q5_ary_search_parameters [1, 9, 2 :: int] 0 3 5 (<) = Some (Inr 1) \<and>
   5 \<le> q5_to_linear_threshold q5_ary_search_parameters \<and>
   (\<exists>w r. q5_ary_loop (q5_to_linear_threshold q5_ary_search_parameters) ordinary_sequence 19 (<) 0 (range_length 0 13)
                   = Some (Inr w) \<and>
          snd w < q5_to_linear_threshold q5_ary_search_parameters \<and>
          0 \<le> fst w \<and> fst w + unat (snd w) \<le> 0 + unat (range_length 0 13) \<and>
          (q5_to_linear_threshold q5_ary_search_parameters \<le> range_length 0 13 \<longrightarrow>
             unat (snd w) < unat (range_length 0 13)) \<and>
          (range_length 0 13 < q5_to_linear_threshold q5_ary_search_parameters \<longrightarrow> w = (0, range_length 0 13)) \<and>
          q5_ary_search q5_ary_search_parameters ordinary_sequence 0 13 19 (<) = Some (Inr r) \<and>
          partition_point ordinary_sequence (<) 19 (fst w) (fst w + unat (snd w)) r) \<and>
   q5_ary_loop (q5_to_linear_threshold q5_ary_search_parameters) ordinary_sequence 19 (<) 0 (range_length 0 13) = Some (Inr (6, 2)) \<and>
   q5_ary_search q5_ary_search_parameters ordinary_sequence 0 13 19 (<) = Some (Inr 7) \<and>
   range_length 0 3 < q6_to_linear_threshold q6_ary_search_parameters \<and>
   (\<exists>r. q6_ary_search q6_ary_search_parameters [1, 9, 2 :: int] 0 3 5 (<) = Some (Inr r) \<and>
        partition_point [1, 9, 2 :: int] (<) 5 0 (0 + unat (range_length 0 3)) r) \<and>
   q6_ary_search q6_ary_search_parameters [1, 9, 2 :: int] 0 3 5 (<) = Some (Inr 1) \<and>
   6 \<le> q6_to_linear_threshold q6_ary_search_parameters \<and>
   (\<exists>w r. q6_ary_loop (q6_to_linear_threshold q6_ary_search_parameters) ordinary_sequence 19 (<) 0 (range_length 0 13)
                   = Some (Inr w) \<and>
          snd w < q6_to_linear_threshold q6_ary_search_parameters \<and>
          0 \<le> fst w \<and> fst w + unat (snd w) \<le> 0 + unat (range_length 0 13) \<and>
          (q6_to_linear_threshold q6_ary_search_parameters \<le> range_length 0 13 \<longrightarrow>
             unat (snd w) < unat (range_length 0 13)) \<and>
          (range_length 0 13 < q6_to_linear_threshold q6_ary_search_parameters \<longrightarrow> w = (0, range_length 0 13)) \<and>
          q6_ary_search q6_ary_search_parameters ordinary_sequence 0 13 19 (<) = Some (Inr r) \<and>
          partition_point ordinary_sequence (<) 19 (fst w) (fst w + unat (snd w)) r) \<and>
   q6_ary_loop (q6_to_linear_threshold q6_ary_search_parameters) ordinary_sequence 19 (<) 0 (range_length 0 13) = Some (Inr (6, 2)) \<and>
   q6_ary_search q6_ary_search_parameters ordinary_sequence 0 13 19 (<) = Some (Inr 7)"
proof -
  have short: "(0::nat) \<le> 3" "3 \<le> length [1, 9, 2 :: int]"
    by simp_all
  have long: "(0::nat) \<le> 13" "13 \<le> length ordinary_sequence"
    by (simp_all add: ordinary_sequence_def)
  note A = q_ary_search_threshold [OF short, where q = 5 and pred = "(<)"
      and ?P2.0 = q2_ary_search_parameters and ?P3.0 = q3_ary_search_parameters
      and ?P4.0 = q4_ary_search_parameters and ?P5.0 = q5_ary_search_parameters
      and ?P6.0 = q6_ary_search_parameters]
  note B = q_ary_search_threshold [OF long, where q = 19 and pred = "(<)"
      and ?P2.0 = q2_ary_search_parameters and ?P3.0 = q3_ary_search_parameters
      and ?P4.0 = q4_ary_search_parameters and ?P5.0 = q5_ary_search_parameters
      and ?P6.0 = q6_ary_search_parameters]
  have below2: "range_length 0 3 < q2_to_linear_threshold q2_ary_search_parameters"
    by (simp add: range_length_def q2_ary_search_parameters_def)
  have scan2: "\<exists>r. q2_ary_search q2_ary_search_parameters [1, 9, 2 :: int] 0 3 5 (<) = Some (Inr r) \<and>
        partition_point [1, 9, 2 :: int] (<) 5 0 (0 + unat (range_length 0 3)) r"
    using A below2 by blast
  have stop2: "q2_ary_search q2_ary_search_parameters [1, 9, 2 :: int] 0 3 5 (<) = Some (Inr 1)"
    by code_simp
  have least2: "2 \<le> q2_to_linear_threshold q2_ary_search_parameters"
    by (simp add: q2_ary_search_parameters_def)
  have narrow2: "\<exists>w r. q2_ary_loop (q2_to_linear_threshold q2_ary_search_parameters) ordinary_sequence 19 (<) 0 (range_length 0 13)
                   = Some (Inr w) \<and>
          snd w < q2_to_linear_threshold q2_ary_search_parameters \<and>
          0 \<le> fst w \<and> fst w + unat (snd w) \<le> 0 + unat (range_length 0 13) \<and>
          (q2_to_linear_threshold q2_ary_search_parameters \<le> range_length 0 13 \<longrightarrow>
             unat (snd w) < unat (range_length 0 13)) \<and>
          (range_length 0 13 < q2_to_linear_threshold q2_ary_search_parameters \<longrightarrow> w = (0, range_length 0 13)) \<and>
          q2_ary_search q2_ary_search_parameters ordinary_sequence 0 13 19 (<) = Some (Inr r) \<and>
          partition_point ordinary_sequence (<) 19 (fst w) (fst w + unat (snd w)) r"
    using B least2 by blast
  have loop2: "q2_ary_loop (q2_to_linear_threshold q2_ary_search_parameters) ordinary_sequence 19 (<) 0 (range_length 0 13) = Some (Inr (6, 3))"
    by code_simp
  have found2: "q2_ary_search q2_ary_search_parameters ordinary_sequence 0 13 19 (<) = Some (Inr 7)"
    by code_simp
  have below3: "range_length 0 3 < q3_to_linear_threshold q3_ary_search_parameters"
    by (simp add: range_length_def q3_ary_search_parameters_def)
  have scan3: "\<exists>r. q3_ary_search q3_ary_search_parameters [1, 9, 2 :: int] 0 3 5 (<) = Some (Inr r) \<and>
        partition_point [1, 9, 2 :: int] (<) 5 0 (0 + unat (range_length 0 3)) r"
    using A below3 by blast
  have stop3: "q3_ary_search q3_ary_search_parameters [1, 9, 2 :: int] 0 3 5 (<) = Some (Inr 1)"
    by code_simp
  have least3: "3 \<le> q3_to_linear_threshold q3_ary_search_parameters"
    by (simp add: q3_ary_search_parameters_def)
  have narrow3: "\<exists>w r. q3_ary_loop (q3_to_linear_threshold q3_ary_search_parameters) ordinary_sequence 19 (<) 0 (range_length 0 13)
                   = Some (Inr w) \<and>
          snd w < q3_to_linear_threshold q3_ary_search_parameters \<and>
          0 \<le> fst w \<and> fst w + unat (snd w) \<le> 0 + unat (range_length 0 13) \<and>
          (q3_to_linear_threshold q3_ary_search_parameters \<le> range_length 0 13 \<longrightarrow>
             unat (snd w) < unat (range_length 0 13)) \<and>
          (range_length 0 13 < q3_to_linear_threshold q3_ary_search_parameters \<longrightarrow> w = (0, range_length 0 13)) \<and>
          q3_ary_search q3_ary_search_parameters ordinary_sequence 0 13 19 (<) = Some (Inr r) \<and>
          partition_point ordinary_sequence (<) 19 (fst w) (fst w + unat (snd w)) r"
    using B least3 by blast
  have loop3: "q3_ary_loop (q3_to_linear_threshold q3_ary_search_parameters) ordinary_sequence 19 (<) 0 (range_length 0 13) = Some (Inr (4, 4))"
    by code_simp
  have found3: "q3_ary_search q3_ary_search_parameters ordinary_sequence 0 13 19 (<) = Some (Inr 7)"
    by code_simp
  have below4: "range_length 0 3 < q4_to_linear_threshold q4_ary_search_parameters"
    by (simp add: range_length_def q4_ary_search_parameters_def)
  have scan4: "\<exists>r. q4_ary_search q4_ary_search_parameters [1, 9, 2 :: int] 0 3 5 (<) = Some (Inr r) \<and>
        partition_point [1, 9, 2 :: int] (<) 5 0 (0 + unat (range_length 0 3)) r"
    using A below4 by blast
  have stop4: "q4_ary_search q4_ary_search_parameters [1, 9, 2 :: int] 0 3 5 (<) = Some (Inr 1)"
    by code_simp
  have least4: "4 \<le> q4_to_linear_threshold q4_ary_search_parameters"
    by (simp add: q4_ary_search_parameters_def)
  have narrow4: "\<exists>w r. q4_ary_loop (q4_to_linear_threshold q4_ary_search_parameters) ordinary_sequence 19 (<) 0 (range_length 0 13)
                   = Some (Inr w) \<and>
          snd w < q4_to_linear_threshold q4_ary_search_parameters \<and>
          0 \<le> fst w \<and> fst w + unat (snd w) \<le> 0 + unat (range_length 0 13) \<and>
          (q4_to_linear_threshold q4_ary_search_parameters \<le> range_length 0 13 \<longrightarrow>
             unat (snd w) < unat (range_length 0 13)) \<and>
          (range_length 0 13 < q4_to_linear_threshold q4_ary_search_parameters \<longrightarrow> w = (0, range_length 0 13)) \<and>
          q4_ary_search q4_ary_search_parameters ordinary_sequence 0 13 19 (<) = Some (Inr r) \<and>
          partition_point ordinary_sequence (<) 19 (fst w) (fst w + unat (snd w)) r"
    using B least4 by blast
  have loop4: "q4_ary_loop (q4_to_linear_threshold q4_ary_search_parameters) ordinary_sequence 19 (<) 0 (range_length 0 13) = Some (Inr (6, 3))"
    by code_simp
  have found4: "q4_ary_search q4_ary_search_parameters ordinary_sequence 0 13 19 (<) = Some (Inr 7)"
    by code_simp
  have below5: "range_length 0 3 < q5_to_linear_threshold q5_ary_search_parameters"
    by (simp add: range_length_def q5_ary_search_parameters_def)
  have scan5: "\<exists>r. q5_ary_search q5_ary_search_parameters [1, 9, 2 :: int] 0 3 5 (<) = Some (Inr r) \<and>
        partition_point [1, 9, 2 :: int] (<) 5 0 (0 + unat (range_length 0 3)) r"
    using A below5 by blast
  have stop5: "q5_ary_search q5_ary_search_parameters [1, 9, 2 :: int] 0 3 5 (<) = Some (Inr 1)"
    by code_simp
  have least5: "5 \<le> q5_to_linear_threshold q5_ary_search_parameters"
    by (simp add: q5_ary_search_parameters_def)
  have narrow5: "\<exists>w r. q5_ary_loop (q5_to_linear_threshold q5_ary_search_parameters) ordinary_sequence 19 (<) 0 (range_length 0 13)
                   = Some (Inr w) \<and>
          snd w < q5_to_linear_threshold q5_ary_search_parameters \<and>
          0 \<le> fst w \<and> fst w + unat (snd w) \<le> 0 + unat (range_length 0 13) \<and>
          (q5_to_linear_threshold q5_ary_search_parameters \<le> range_length 0 13 \<longrightarrow>
             unat (snd w) < unat (range_length 0 13)) \<and>
          (range_length 0 13 < q5_to_linear_threshold q5_ary_search_parameters \<longrightarrow> w = (0, range_length 0 13)) \<and>
          q5_ary_search q5_ary_search_parameters ordinary_sequence 0 13 19 (<) = Some (Inr r) \<and>
          partition_point ordinary_sequence (<) 19 (fst w) (fst w + unat (snd w)) r"
    using B least5 by blast
  have loop5: "q5_ary_loop (q5_to_linear_threshold q5_ary_search_parameters) ordinary_sequence 19 (<) 0 (range_length 0 13) = Some (Inr (6, 2))"
    by code_simp
  have found5: "q5_ary_search q5_ary_search_parameters ordinary_sequence 0 13 19 (<) = Some (Inr 7)"
    by code_simp
  have below6: "range_length 0 3 < q6_to_linear_threshold q6_ary_search_parameters"
    by (simp add: range_length_def q6_ary_search_parameters_def)
  have scan6: "\<exists>r. q6_ary_search q6_ary_search_parameters [1, 9, 2 :: int] 0 3 5 (<) = Some (Inr r) \<and>
        partition_point [1, 9, 2 :: int] (<) 5 0 (0 + unat (range_length 0 3)) r"
    using A below6 by blast
  have stop6: "q6_ary_search q6_ary_search_parameters [1, 9, 2 :: int] 0 3 5 (<) = Some (Inr 1)"
    by code_simp
  have least6: "6 \<le> q6_to_linear_threshold q6_ary_search_parameters"
    by (simp add: q6_ary_search_parameters_def)
  have narrow6: "\<exists>w r. q6_ary_loop (q6_to_linear_threshold q6_ary_search_parameters) ordinary_sequence 19 (<) 0 (range_length 0 13)
                   = Some (Inr w) \<and>
          snd w < q6_to_linear_threshold q6_ary_search_parameters \<and>
          0 \<le> fst w \<and> fst w + unat (snd w) \<le> 0 + unat (range_length 0 13) \<and>
          (q6_to_linear_threshold q6_ary_search_parameters \<le> range_length 0 13 \<longrightarrow>
             unat (snd w) < unat (range_length 0 13)) \<and>
          (range_length 0 13 < q6_to_linear_threshold q6_ary_search_parameters \<longrightarrow> w = (0, range_length 0 13)) \<and>
          q6_ary_search q6_ary_search_parameters ordinary_sequence 0 13 19 (<) = Some (Inr r) \<and>
          partition_point ordinary_sequence (<) 19 (fst w) (fst w + unat (snd w)) r"
    using B least6 by blast
  have loop6: "q6_ary_loop (q6_to_linear_threshold q6_ary_search_parameters) ordinary_sequence 19 (<) 0 (range_length 0 13) = Some (Inr (6, 2))"
    by code_simp
  have found6: "q6_ary_search q6_ary_search_parameters ordinary_sequence 0 13 19 (<) = Some (Inr 7)"
    by code_simp
  show ?thesis
    by (intro conjI)
       (rule short long below2 scan2 stop2 least2 narrow2 loop2 found2 below3 scan3 stop3 least3 narrow3 loop3 found3
          below4 scan4 stop4 least4 narrow4 loop4 found4 below5 scan5 stop5 least5 narrow5 loop5 found5
          below6 scan6 stop6 least6 narrow6 loop6 found6)+
qed

subsection \<open>C6: the membership test\<close>

lemma search_bool_sorted_rule:
  fixes mem :: "('a::linorder) list"
  assumes W: "\<exists>r. S = Some (Inr r) \<and> b \<le> r \<and> r \<le> b + unat (range_length b e) \<and>
             (r < b + unat (range_length b e) \<longrightarrow> \<not> mem ! r < q) \<and>
             (partitioned mem (\<lambda>x y. x < y) q b (b + unat (range_length b e)) \<longrightarrow>
                partition_point mem (\<lambda>x y. x < y) q b (b + unat (range_length b e)) r)"
    and range: "b \<le> e" "e \<le> length mem"
    and sorted: "sorted (slice mem b e)" and short: "e - b < 2 ^ 32"
  shows "\<exists>r. S = Some (Inr r) \<and>
             found mem e q S = Some (Inr (r \<noteq> e \<and> \<not> q < mem ! r)) \<and>
             ((r \<noteq> e \<and> \<not> q < mem ! r) \<longleftrightarrow> (r < e \<and> mem ! r = q))"
proof -
  from search_bool_rule [OF W range] obtain r where r: "S = Some (Inr r)"
    "found mem e q S = Some (Inr (r \<noteq> e \<and> \<not> q < mem ! r))"
    "sorted (slice mem b e) \<and> e - b < 2 ^ 32 \<longrightarrow>
       ((r \<noteq> e \<and> \<not> q < mem ! r) \<longleftrightarrow> (r < e \<and> mem ! r = q))"
    by blast
  from sorted short have "sorted (slice mem b e) \<and> e - b < 2 ^ 32" ..
  with r(3) have "(r \<noteq> e \<and> \<not> q < mem ! r) \<longleftrightarrow> (r < e \<and> mem ! r = q)"
    by (rule mp)
  with r(1,2) show ?thesis by (intro exI [of _ r] conjI)
qed

lemma linear_search_empty: "linear_search mem q pred b b = Inr b"
  by (subst linear_search.simps) simp

lemma linear_search_one_passing:
  assumes "0 < n" and "pred x q"
  shows "linear_search (replicate n x) q pred 0 (Suc 0) = Inr (Suc 0)"
  using assms by (subst linear_search.simps) (simp add: linear_search_empty)

text \<open>
  C6, as amended. For every arity \<open>Q\<close> from 2 to 6, every sorted range \<open>[b, e)\<close> of fewer
  than \<open>2 ^ 32\<close> elements and every query \<open>q\<close>, with a threshold of at least \<open>Q\<close> (the
  default \<open>2 * Q\<close> is one) the membership overload returns, and what it returns is: the
  position \<open>r\<close> that the lower bound returns is not \<open>e\<close>, and the element at \<open>r\<close> is not
  greater than \<open>q\<close>. It is computed from that one lower-bound result and one more read.
  It is true exactly when \<open>r\<close> is a position of the range whose element equals \<open>q\<close>.
\<close>

theorem q_ary_search_bool_iff:
  fixes mem :: "('a::linorder) list"
  assumes "sorted (slice mem b e)" and "b \<le> e" and "e \<le> length mem" and "e - b < 2 ^ 32"
    and "2 \<le> q2_to_linear_threshold P2" and "3 \<le> q3_to_linear_threshold P3"
    and "4 \<le> q4_to_linear_threshold P4" and "5 \<le> q5_to_linear_threshold P5"
    and "6 \<le> q6_to_linear_threshold P6"
  shows "(\<exists>r. q2_ary_lower_bound P2 mem b e q = Some (Inr r) \<and>
         q2_ary_search_bool P2 mem b e q
           = Some (Inr (r \<noteq> e \<and> \<not> q < mem ! r)) \<and>
         ((r \<noteq> e \<and> \<not> q < mem ! r) \<longleftrightarrow> (r < e \<and> mem ! r = q))) \<and>
    (\<exists>r. q3_ary_lower_bound P3 mem b e q = Some (Inr r) \<and>
         q3_ary_search_bool P3 mem b e q
           = Some (Inr (r \<noteq> e \<and> \<not> q < mem ! r)) \<and>
         ((r \<noteq> e \<and> \<not> q < mem ! r) \<longleftrightarrow> (r < e \<and> mem ! r = q))) \<and>
    (\<exists>r. q4_ary_lower_bound P4 mem b e q = Some (Inr r) \<and>
         q4_ary_search_bool P4 mem b e q
           = Some (Inr (r \<noteq> e \<and> \<not> q < mem ! r)) \<and>
         ((r \<noteq> e \<and> \<not> q < mem ! r) \<longleftrightarrow> (r < e \<and> mem ! r = q))) \<and>
    (\<exists>r. q5_ary_lower_bound P5 mem b e q = Some (Inr r) \<and>
         q5_ary_search_bool P5 mem b e q
           = Some (Inr (r \<noteq> e \<and> \<not> q < mem ! r)) \<and>
         ((r \<noteq> e \<and> \<not> q < mem ! r) \<longleftrightarrow> (r < e \<and> mem ! r = q))) \<and>
    (\<exists>r. q6_ary_lower_bound P6 mem b e q = Some (Inr r) \<and>
         q6_ary_search_bool P6 mem b e q
           = Some (Inr (r \<noteq> e \<and> \<not> q < mem ! r)) \<and>
         ((r \<noteq> e \<and> \<not> q < mem ! r) \<longleftrightarrow> (r < e \<and> mem ! r = q)))"
proof (intro conjI)
  show "\<exists>r. q2_ary_lower_bound P2 mem b e q = Some (Inr r) \<and>
              q2_ary_search_bool P2 mem b e q
                = Some (Inr (r \<noteq> e \<and> \<not> q < mem ! r)) \<and>
              ((r \<noteq> e \<and> \<not> q < mem ! r) \<longleftrightarrow> (r < e \<and> mem ! r = q))"
    unfolding q2_ary_lower_bound_def q2_ary_search_bool_def
    by (rule search_bool_sorted_rule
        [OF q2_ary_search_window [OF assms(5) assms(2,3)] assms(2,3) assms(1) assms(4)])
  show "\<exists>r. q3_ary_lower_bound P3 mem b e q = Some (Inr r) \<and>
              q3_ary_search_bool P3 mem b e q
                = Some (Inr (r \<noteq> e \<and> \<not> q < mem ! r)) \<and>
              ((r \<noteq> e \<and> \<not> q < mem ! r) \<longleftrightarrow> (r < e \<and> mem ! r = q))"
    unfolding q3_ary_lower_bound_def q3_ary_search_bool_def
    by (rule search_bool_sorted_rule
        [OF q3_ary_search_window [OF assms(6) assms(2,3)] assms(2,3) assms(1) assms(4)])
  show "\<exists>r. q4_ary_lower_bound P4 mem b e q = Some (Inr r) \<and>
              q4_ary_search_bool P4 mem b e q
                = Some (Inr (r \<noteq> e \<and> \<not> q < mem ! r)) \<and>
              ((r \<noteq> e \<and> \<not> q < mem ! r) \<longleftrightarrow> (r < e \<and> mem ! r = q))"
    unfolding q4_ary_lower_bound_def q4_ary_search_bool_def
    by (rule search_bool_sorted_rule
        [OF q4_ary_search_window [OF assms(7) assms(2,3)] assms(2,3) assms(1) assms(4)])
  show "\<exists>r. q5_ary_lower_bound P5 mem b e q = Some (Inr r) \<and>
              q5_ary_search_bool P5 mem b e q
                = Some (Inr (r \<noteq> e \<and> \<not> q < mem ! r)) \<and>
              ((r \<noteq> e \<and> \<not> q < mem ! r) \<longleftrightarrow> (r < e \<and> mem ! r = q))"
    unfolding q5_ary_lower_bound_def q5_ary_search_bool_def
    by (rule search_bool_sorted_rule
        [OF q5_ary_search_window [OF assms(8) assms(2,3)] assms(2,3) assms(1) assms(4)])
  show "\<exists>r. q6_ary_lower_bound P6 mem b e q = Some (Inr r) \<and>
              q6_ary_search_bool P6 mem b e q
                = Some (Inr (r \<noteq> e \<and> \<not> q < mem ! r)) \<and>
              ((r \<noteq> e \<and> \<not> q < mem ! r) \<longleftrightarrow> (r < e \<and> mem ! r = q))"
    unfolding q6_ary_lower_bound_def q6_ary_search_bool_def
    by (rule search_bool_sorted_rule
        [OF q6_ary_search_window [OF assms(9) assms(2,3)] assms(2,3) assms(1) assms(4)])
qed

text \<open>
  The theorem at the ordinary sequence and the query 19, which is its element at
  position 7.
\<close>

theorem q_ary_search_bool_iff_witness:
  "sorted (slice ordinary_sequence 0 13) \<and>
   (0::nat) \<le> 13 \<and> 13 \<le> length ordinary_sequence \<and> (13::nat) - 0 < 2 ^ 32 \<and>
   2 \<le> q2_to_linear_threshold q2_ary_search_parameters \<and>
   3 \<le> q3_to_linear_threshold q3_ary_search_parameters \<and>
   4 \<le> q4_to_linear_threshold q4_ary_search_parameters \<and>
   5 \<le> q5_to_linear_threshold q5_ary_search_parameters \<and>
   6 \<le> q6_to_linear_threshold q6_ary_search_parameters \<and>
   (\<exists>r. q2_ary_lower_bound q2_ary_search_parameters ordinary_sequence 0 13 19 = Some (Inr r) \<and>
        q2_ary_search_bool q2_ary_search_parameters ordinary_sequence 0 13 19
          = Some (Inr (r \<noteq> 13 \<and> \<not> 19 < ordinary_sequence ! r)) \<and>
        ((r \<noteq> 13 \<and> \<not> 19 < ordinary_sequence ! r) \<longleftrightarrow> (r < 13 \<and> ordinary_sequence ! r = 19))) \<and>
   (\<exists>r. q3_ary_lower_bound q3_ary_search_parameters ordinary_sequence 0 13 19 = Some (Inr r) \<and>
        q3_ary_search_bool q3_ary_search_parameters ordinary_sequence 0 13 19
          = Some (Inr (r \<noteq> 13 \<and> \<not> 19 < ordinary_sequence ! r)) \<and>
        ((r \<noteq> 13 \<and> \<not> 19 < ordinary_sequence ! r) \<longleftrightarrow> (r < 13 \<and> ordinary_sequence ! r = 19))) \<and>
   (\<exists>r. q4_ary_lower_bound q4_ary_search_parameters ordinary_sequence 0 13 19 = Some (Inr r) \<and>
        q4_ary_search_bool q4_ary_search_parameters ordinary_sequence 0 13 19
          = Some (Inr (r \<noteq> 13 \<and> \<not> 19 < ordinary_sequence ! r)) \<and>
        ((r \<noteq> 13 \<and> \<not> 19 < ordinary_sequence ! r) \<longleftrightarrow> (r < 13 \<and> ordinary_sequence ! r = 19))) \<and>
   (\<exists>r. q5_ary_lower_bound q5_ary_search_parameters ordinary_sequence 0 13 19 = Some (Inr r) \<and>
        q5_ary_search_bool q5_ary_search_parameters ordinary_sequence 0 13 19
          = Some (Inr (r \<noteq> 13 \<and> \<not> 19 < ordinary_sequence ! r)) \<and>
        ((r \<noteq> 13 \<and> \<not> 19 < ordinary_sequence ! r) \<longleftrightarrow> (r < 13 \<and> ordinary_sequence ! r = 19))) \<and>
   (\<exists>r. q6_ary_lower_bound q6_ary_search_parameters ordinary_sequence 0 13 19 = Some (Inr r) \<and>
        q6_ary_search_bool q6_ary_search_parameters ordinary_sequence 0 13 19
          = Some (Inr (r \<noteq> 13 \<and> \<not> 19 < ordinary_sequence ! r)) \<and>
        ((r \<noteq> 13 \<and> \<not> 19 < ordinary_sequence ! r) \<longleftrightarrow> (r < 13 \<and> ordinary_sequence ! r = 19)))"
proof -
  have sorted: "sorted (slice ordinary_sequence 0 13)"
    by (simp add: ordinary_sequence_def slice_def)
  have range: "(0::nat) \<le> 13" "13 \<le> length ordinary_sequence"
    by (simp_all add: ordinary_sequence_def)
  have short: "(13::nat) - 0 < 2 ^ 32"
    by simp
  have thr: "2 \<le> q2_to_linear_threshold q2_ary_search_parameters"
    "3 \<le> q3_to_linear_threshold q3_ary_search_parameters"
    "4 \<le> q4_to_linear_threshold q4_ary_search_parameters"
    "5 \<le> q5_to_linear_threshold q5_ary_search_parameters"
    "6 \<le> q6_to_linear_threshold q6_ary_search_parameters"
    by (simp_all add: q2_ary_search_parameters_def q3_ary_search_parameters_def
        q4_ary_search_parameters_def q5_ary_search_parameters_def q6_ary_search_parameters_def)
  from q_ary_search_bool_iff [OF sorted range short thr, of 19] sorted range short thr
  show ?thesis by (elim conjE, intro conjI) assumption+
qed

text \<open>
  C6 as the specification states it, for every sorted range, fails. An array of
  \<open>2 ^ 32 + 1\<close> zeros is sorted and does not hold 1. The conversion to \<^verbatim>\<open>length_t\<close>
  makes the length 1, so the lower bound is position 1, which is not the end; the element
  there is 0, which is not greater than 1, and the membership overload returns true,
  though that element does not equal the query.
\<close>

theorem q_ary_search_bool_iff_counterexample:
  "sorted (slice (replicate (2 ^ 32 + 1) (0::nat)) 0 (2 ^ 32 + 1)) \<and>
   2 ^ 32 + 1 \<le> length (replicate (2 ^ 32 + 1) (0::nat)) \<and>
   q2_ary_lower_bound q2_ary_search_parameters (replicate (2 ^ 32 + 1) (0::nat)) 0 (2 ^ 32 + 1) 1
     = Some (Inr 1) \<and>
   q2_ary_search_bool q2_ary_search_parameters (replicate (2 ^ 32 + 1) (0::nat)) 0 (2 ^ 32 + 1) 1
     = Some (Inr True) \<and>
   replicate (2 ^ 32 + 1) (0::nat) ! 1 \<noteq> 1 \<and>
   1 \<notin> set (slice (replicate (2 ^ 32 + 1) (0::nat)) 0 (2 ^ 32 + 1))"
proof -
  have len: "range_length 0 (2 ^ 32 + 1) = 1"
    by (simp add: range_length_def)
  have "\<not> (4::length_t) \<le> 1"
    by (simp add: word_le_nat_alt)
  then have loop: "q2_ary_loop (q2_to_linear_threshold q2_ary_search_parameters)
                     (replicate (2 ^ 32 + 1) (0::nat)) 1 (\<lambda>x y. x < y) 0 1 = Some (Inr (0, 1))"
    by (subst q2_ary_loop.simps) (simp add: q2_ary_search_parameters_def)
  have lb: "q2_ary_search q2_ary_search_parameters (replicate (2 ^ 32 + 1) (0::nat)) 0 (2 ^ 32 + 1)
              1 (\<lambda>x y. x < y) = Some (Inr 1)"
    unfolding q2_ary_search_def len loop
    by (simp add: finish_def linear_search_one_passing)
  show ?thesis
  proof (intro conjI)
    show "sorted (slice (replicate (2 ^ 32 + 1) (0::nat)) 0 (2 ^ 32 + 1))"
      by (simp add: slice_def sorted_wrt_iff_nth_less)
    show "2 ^ 32 + 1 \<le> length (replicate (2 ^ 32 + 1) (0::nat))"
      by simp
    show "q2_ary_lower_bound q2_ary_search_parameters (replicate (2 ^ 32 + 1) (0::nat)) 0
            (2 ^ 32 + 1) 1 = Some (Inr 1)"
      unfolding q2_ary_lower_bound_def by (rule lb)
    show "q2_ary_search_bool q2_ary_search_parameters (replicate (2 ^ 32 + 1) (0::nat)) 0
            (2 ^ 32 + 1) 1 = Some (Inr True)"
      unfolding q2_ary_search_bool_def lb by (simp add: found_def)
    show "replicate (2 ^ 32 + 1) (0::nat) ! 1 \<noteq> 1"
      by simp
    show "1 \<notin> set (slice (replicate (2 ^ 32 + 1) (0::nat)) 0 (2 ^ 32 + 1))"
      by (simp add: slice_def)
  qed
qed

subsection \<open>C7: identical inputs give identical results\<close>

text \<open>
  C7. In the model, as in the source, a search takes the array and returns a position
  or a truth value: it reads through its iterators and assigns neither through them nor
  to a global, so that nothing a call leaves behind can reach a later call. What a
  search returns is decided by the contents of its range alone. For every arity \<open>Q\<close>
  from 2 to 6, with a threshold of at least \<open>Q\<close> (the default \<open>2 * Q\<close> is one): when
  the range \<open>[b, e)\<close> of an array and the range \<open>[b', e')\<close> of an array hold the same
  elements, the searches for the same query with the same predicate return the same
  offset from the start of their range, and the membership tests return the same
  answer, whatever the arrays hold outside the ranges. Two calls on the same range of
  the same array are the case \<open>mem' = mem\<close>, \<open>b' = b\<close>, \<open>e' = e\<close>.
\<close>

theorem q_ary_search_contents_only:
  fixes mem mem' :: "('a::ord) list"
  assumes "b \<le> e" and "e \<le> length mem" and "b' \<le> e'" and "e' \<le> length mem'"
    and "slice mem b e = slice mem' b' e'"
    and "2 \<le> q2_to_linear_threshold P2" and "3 \<le> q3_to_linear_threshold P3"
    and "4 \<le> q4_to_linear_threshold P4" and "5 \<le> q5_to_linear_threshold P5"
    and "6 \<le> q6_to_linear_threshold P6"
  shows "(\<exists>r. q2_ary_search P2 mem b e q pred = Some (Inr (b + r)) \<and>
              q2_ary_search P2 mem' b' e' q pred = Some (Inr (b' + r)) \<and> r \<le> e - b) \<and>
         q2_ary_search_bool P2 mem b e v = q2_ary_search_bool P2 mem' b' e' v \<and>
         (\<exists>r. q3_ary_search P3 mem b e q pred = Some (Inr (b + r)) \<and>
              q3_ary_search P3 mem' b' e' q pred = Some (Inr (b' + r)) \<and> r \<le> e - b) \<and>
         q3_ary_search_bool P3 mem b e v = q3_ary_search_bool P3 mem' b' e' v \<and>
         (\<exists>r. q4_ary_search P4 mem b e q pred = Some (Inr (b + r)) \<and>
              q4_ary_search P4 mem' b' e' q pred = Some (Inr (b' + r)) \<and> r \<le> e - b) \<and>
         q4_ary_search_bool P4 mem b e v = q4_ary_search_bool P4 mem' b' e' v \<and>
         (\<exists>r. q5_ary_search P5 mem b e q pred = Some (Inr (b + r)) \<and>
              q5_ary_search P5 mem' b' e' q pred = Some (Inr (b' + r)) \<and> r \<le> e - b) \<and>
         q5_ary_search_bool P5 mem b e v = q5_ary_search_bool P5 mem' b' e' v \<and>
         (\<exists>r. q6_ary_search P6 mem b e q pred = Some (Inr (b + r)) \<and>
              q6_ary_search P6 mem' b' e' q pred = Some (Inr (b' + r)) \<and> r \<le> e - b) \<and>
         q6_ary_search_bool P6 mem b e v = q6_ary_search_bool P6 mem' b' e' v"
proof (intro conjI)
  show "\<exists>r. q2_ary_search P2 mem b e q pred = Some (Inr (b + r)) \<and>
              q2_ary_search P2 mem' b' e' q pred = Some (Inr (b' + r)) \<and> r \<le> e - b"
    unfolding q2_ary_search_def
    by (rule q_ary_search_relocate [where Q = 2, OF q2_ary_loop_unfold q2_ary_loop_unfold _
          q2_threshold [OF assms(6)] assms(1-5)]) simp
  show "q2_ary_search_bool P2 mem b e v = q2_ary_search_bool P2 mem' b' e' v"
    unfolding q2_ary_search_bool_def q2_ary_search_def
    by (rule found_relocate [OF q_ary_search_relocate [where Q = 2, OF q2_ary_loop_unfold
          q2_ary_loop_unfold _ q2_threshold [OF assms(6)] assms(1-5)] assms(1-5)]) simp
  show "\<exists>r. q3_ary_search P3 mem b e q pred = Some (Inr (b + r)) \<and>
              q3_ary_search P3 mem' b' e' q pred = Some (Inr (b' + r)) \<and> r \<le> e - b"
    unfolding q3_ary_search_def
    by (rule q_ary_search_relocate [where Q = 3, OF q3_ary_loop_unfold q3_ary_loop_unfold _
          q3_threshold [OF assms(7)] assms(1-5)]) simp
  show "q3_ary_search_bool P3 mem b e v = q3_ary_search_bool P3 mem' b' e' v"
    unfolding q3_ary_search_bool_def q3_ary_search_def
    by (rule found_relocate [OF q_ary_search_relocate [where Q = 3, OF q3_ary_loop_unfold
          q3_ary_loop_unfold _ q3_threshold [OF assms(7)] assms(1-5)] assms(1-5)]) simp
  show "\<exists>r. q4_ary_search P4 mem b e q pred = Some (Inr (b + r)) \<and>
              q4_ary_search P4 mem' b' e' q pred = Some (Inr (b' + r)) \<and> r \<le> e - b"
    unfolding q4_ary_search_def
    by (rule q_ary_search_relocate [where Q = 4, OF q4_ary_loop_unfold q4_ary_loop_unfold _
          q4_threshold [OF assms(8)] assms(1-5)]) simp
  show "q4_ary_search_bool P4 mem b e v = q4_ary_search_bool P4 mem' b' e' v"
    unfolding q4_ary_search_bool_def q4_ary_search_def
    by (rule found_relocate [OF q_ary_search_relocate [where Q = 4, OF q4_ary_loop_unfold
          q4_ary_loop_unfold _ q4_threshold [OF assms(8)] assms(1-5)] assms(1-5)]) simp
  show "\<exists>r. q5_ary_search P5 mem b e q pred = Some (Inr (b + r)) \<and>
              q5_ary_search P5 mem' b' e' q pred = Some (Inr (b' + r)) \<and> r \<le> e - b"
    unfolding q5_ary_search_def
    by (rule q_ary_search_relocate [where Q = 5, OF q5_ary_loop_unfold q5_ary_loop_unfold _
          q5_threshold [OF assms(9)] assms(1-5)]) simp
  show "q5_ary_search_bool P5 mem b e v = q5_ary_search_bool P5 mem' b' e' v"
    unfolding q5_ary_search_bool_def q5_ary_search_def
    by (rule found_relocate [OF q_ary_search_relocate [where Q = 5, OF q5_ary_loop_unfold
          q5_ary_loop_unfold _ q5_threshold [OF assms(9)] assms(1-5)] assms(1-5)]) simp
  show "\<exists>r. q6_ary_search P6 mem b e q pred = Some (Inr (b + r)) \<and>
              q6_ary_search P6 mem' b' e' q pred = Some (Inr (b' + r)) \<and> r \<le> e - b"
    unfolding q6_ary_search_def
    by (rule q_ary_search_relocate [where Q = 6, OF q6_ary_loop_unfold q6_ary_loop_unfold _
          q6_threshold [OF assms(10)] assms(1-5)]) simp
  show "q6_ary_search_bool P6 mem b e v = q6_ary_search_bool P6 mem' b' e' v"
    unfolding q6_ary_search_bool_def q6_ary_search_def
    by (rule found_relocate [OF q_ary_search_relocate [where Q = 6, OF q6_ary_loop_unfold
          q6_ary_loop_unfold _ q6_threshold [OF assms(10)] assms(1-5)] assms(1-5)]) simp
qed

text \<open>
  The theorem with the default thresholds, on the ordinary sequence and on a copy of it
  that lies one position further in an array with other elements before and behind.
\<close>

theorem q_ary_search_contents_only_witness:
  "(0::nat) \<le> 13 \<and> 13 \<le> length ordinary_sequence \<and>
   (1::nat) \<le> 14 \<and> 14 \<le> length (99 # ordinary_sequence @ [0]) \<and>
   slice ordinary_sequence 0 13 = slice (99 # ordinary_sequence @ [0]) 1 14 \<and>
   2 \<le> q2_to_linear_threshold q2_ary_search_parameters \<and>
   3 \<le> q3_to_linear_threshold q3_ary_search_parameters \<and>
   4 \<le> q4_to_linear_threshold q4_ary_search_parameters \<and>
   5 \<le> q5_to_linear_threshold q5_ary_search_parameters \<and>
   6 \<le> q6_to_linear_threshold q6_ary_search_parameters \<and>
   (\<exists>r. q2_ary_search q2_ary_search_parameters ordinary_sequence 0 13 19 (<)
          = Some (Inr (0 + r)) \<and>
        q2_ary_search q2_ary_search_parameters (99 # ordinary_sequence @ [0]) 1 14 19 (<)
          = Some (Inr (1 + r)) \<and> r \<le> 13 - 0) \<and>
   q2_ary_search_bool q2_ary_search_parameters ordinary_sequence 0 13 19 =
     q2_ary_search_bool q2_ary_search_parameters (99 # ordinary_sequence @ [0]) 1 14 19 \<and>
   (\<exists>r. q3_ary_search q3_ary_search_parameters ordinary_sequence 0 13 19 (<)
          = Some (Inr (0 + r)) \<and>
        q3_ary_search q3_ary_search_parameters (99 # ordinary_sequence @ [0]) 1 14 19 (<)
          = Some (Inr (1 + r)) \<and> r \<le> 13 - 0) \<and>
   q3_ary_search_bool q3_ary_search_parameters ordinary_sequence 0 13 19 =
     q3_ary_search_bool q3_ary_search_parameters (99 # ordinary_sequence @ [0]) 1 14 19 \<and>
   (\<exists>r. q4_ary_search q4_ary_search_parameters ordinary_sequence 0 13 19 (<)
          = Some (Inr (0 + r)) \<and>
        q4_ary_search q4_ary_search_parameters (99 # ordinary_sequence @ [0]) 1 14 19 (<)
          = Some (Inr (1 + r)) \<and> r \<le> 13 - 0) \<and>
   q4_ary_search_bool q4_ary_search_parameters ordinary_sequence 0 13 19 =
     q4_ary_search_bool q4_ary_search_parameters (99 # ordinary_sequence @ [0]) 1 14 19 \<and>
   (\<exists>r. q5_ary_search q5_ary_search_parameters ordinary_sequence 0 13 19 (<)
          = Some (Inr (0 + r)) \<and>
        q5_ary_search q5_ary_search_parameters (99 # ordinary_sequence @ [0]) 1 14 19 (<)
          = Some (Inr (1 + r)) \<and> r \<le> 13 - 0) \<and>
   q5_ary_search_bool q5_ary_search_parameters ordinary_sequence 0 13 19 =
     q5_ary_search_bool q5_ary_search_parameters (99 # ordinary_sequence @ [0]) 1 14 19 \<and>
   (\<exists>r. q6_ary_search q6_ary_search_parameters ordinary_sequence 0 13 19 (<)
          = Some (Inr (0 + r)) \<and>
        q6_ary_search q6_ary_search_parameters (99 # ordinary_sequence @ [0]) 1 14 19 (<)
          = Some (Inr (1 + r)) \<and> r \<le> 13 - 0) \<and>
   q6_ary_search_bool q6_ary_search_parameters ordinary_sequence 0 13 19 =
     q6_ary_search_bool q6_ary_search_parameters (99 # ordinary_sequence @ [0]) 1 14 19"
proof -
  have range: "(0::nat) \<le> 13" "13 \<le> length ordinary_sequence"
    "(1::nat) \<le> 14" "14 \<le> length (99 # ordinary_sequence @ [0])"
    by (simp_all add: ordinary_sequence_def)
  have same: "slice ordinary_sequence 0 13 = slice (99 # ordinary_sequence @ [0]) 1 14"
    by (simp add: slice_def ordinary_sequence_def)
  have thr: "2 \<le> q2_to_linear_threshold q2_ary_search_parameters"
    "3 \<le> q3_to_linear_threshold q3_ary_search_parameters"
    "4 \<le> q4_to_linear_threshold q4_ary_search_parameters"
    "5 \<le> q5_to_linear_threshold q5_ary_search_parameters"
    "6 \<le> q6_to_linear_threshold q6_ary_search_parameters"
    by (simp_all add: q2_ary_search_parameters_def q3_ary_search_parameters_def
        q4_ary_search_parameters_def q5_ary_search_parameters_def q6_ary_search_parameters_def)
  from q_ary_search_contents_only [OF range same thr, of 19 "(<)" 19] range same thr
  show ?thesis by (elim conjE, intro conjI) assumption+
qed

subsection \<open>C8: every search ends\<close>

text \<open>
  C8. For every arity \<open>Q\<close> from 2 to 6, with a threshold of at least \<open>Q\<close> (the default
  \<open>2 * Q\<close> is one) the run of the search ends, on every array, every pair of positions,
  every query and every predicate (it ends with a position; with positions that are not
  a range of the array it may end with the fault of a read outside the array). Each pass
  of the loop makes the window shorter by at least one element, and the linear search
  from \<open>b'\<close> over \<open>n\<close> elements stops at most \<open>n\<close> positions further.
\<close>

theorem q_ary_search_terminates_always:
  assumes "2 \<le> q2_to_linear_threshold P2" and "3 \<le> q3_to_linear_threshold P3"
    and "4 \<le> q4_to_linear_threshold P4" and "5 \<le> q5_to_linear_threshold P5"
    and "6 \<le> q6_to_linear_threshold P6"
  shows "(\<exists>r. q2_ary_search P2 mem b e q pred = Some r) \<and>
         (q2_to_linear_threshold P2 \<le> len \<and> q2_ary_step mem q pred b' len = Inr w \<longrightarrow>
            unat (snd w) + 1 \<le> unat len) \<and>
         (\<exists>r. q3_ary_search P3 mem b e q pred = Some r) \<and>
         (q3_to_linear_threshold P3 \<le> len \<and> q3_ary_step mem q pred b' len = Inr w \<longrightarrow>
            unat (snd w) + 1 \<le> unat len) \<and>
         (\<exists>r. q4_ary_search P4 mem b e q pred = Some r) \<and>
         (q4_to_linear_threshold P4 \<le> len \<and> q4_ary_step mem q pred b' len = Inr w \<longrightarrow>
            unat (snd w) + 1 \<le> unat len) \<and>
         (\<exists>r. q5_ary_search P5 mem b e q pred = Some r) \<and>
         (q5_to_linear_threshold P5 \<le> len \<and> q5_ary_step mem q pred b' len = Inr w \<longrightarrow>
            unat (snd w) + 1 \<le> unat len) \<and>
         (\<exists>r. q6_ary_search P6 mem b e q pred = Some r) \<and>
         (q6_to_linear_threshold P6 \<le> len \<and> q6_ary_step mem q pred b' len = Inr w \<longrightarrow>
            unat (snd w) + 1 \<le> unat len) \<and>
         (linear_search mem q pred b' (b' + n) = Inr r' \<longrightarrow> b' \<le> r' \<and> r' - b' \<le> n)"
proof (intro conjI)
  show "\<exists>r. q2_ary_search P2 mem b e q pred = Some r"
    by (rule q2_ary_search_returns [OF assms(1)])
  show "q2_to_linear_threshold P2 \<le> len \<and> q2_ary_step mem q pred b' len = Inr w \<longrightarrow>
            unat (snd w) + 1 \<le> unat len"
  proof
    assume a: "q2_to_linear_threshold P2 \<le> len \<and> q2_ary_step mem q pred b' len = Inr w"
    then have "q_ary_step 2 mem q pred b' len = Inr w" by (simp add: q2_ary_step_cascade)
    from q_ary_step_window [OF _ q2_threshold [OF assms(1)] conjunct1 [OF a] this]
    show "unat (snd w) + 1 \<le> unat len" by simp
  qed
  show "\<exists>r. q3_ary_search P3 mem b e q pred = Some r"
    by (rule q3_ary_search_returns [OF assms(2)])
  show "q3_to_linear_threshold P3 \<le> len \<and> q3_ary_step mem q pred b' len = Inr w \<longrightarrow>
            unat (snd w) + 1 \<le> unat len"
  proof
    assume a: "q3_to_linear_threshold P3 \<le> len \<and> q3_ary_step mem q pred b' len = Inr w"
    then have "q_ary_step 3 mem q pred b' len = Inr w" by (simp add: q3_ary_step_cascade)
    from q_ary_step_window [OF _ q3_threshold [OF assms(2)] conjunct1 [OF a] this]
    show "unat (snd w) + 1 \<le> unat len" by simp
  qed
  show "\<exists>r. q4_ary_search P4 mem b e q pred = Some r"
    by (rule q4_ary_search_returns [OF assms(3)])
  show "q4_to_linear_threshold P4 \<le> len \<and> q4_ary_step mem q pred b' len = Inr w \<longrightarrow>
            unat (snd w) + 1 \<le> unat len"
  proof
    assume a: "q4_to_linear_threshold P4 \<le> len \<and> q4_ary_step mem q pred b' len = Inr w"
    then have "q_ary_step 4 mem q pred b' len = Inr w" by (simp add: q4_ary_step_cascade)
    from q_ary_step_window [OF _ q4_threshold [OF assms(3)] conjunct1 [OF a] this]
    show "unat (snd w) + 1 \<le> unat len" by simp
  qed
  show "\<exists>r. q5_ary_search P5 mem b e q pred = Some r"
    by (rule q5_ary_search_returns [OF assms(4)])
  show "q5_to_linear_threshold P5 \<le> len \<and> q5_ary_step mem q pred b' len = Inr w \<longrightarrow>
            unat (snd w) + 1 \<le> unat len"
  proof
    assume a: "q5_to_linear_threshold P5 \<le> len \<and> q5_ary_step mem q pred b' len = Inr w"
    then have "q_ary_step 5 mem q pred b' len = Inr w" by (simp add: q5_ary_step_cascade)
    from q_ary_step_window [OF _ q5_threshold [OF assms(4)] conjunct1 [OF a] this]
    show "unat (snd w) + 1 \<le> unat len" by simp
  qed
  show "\<exists>r. q6_ary_search P6 mem b e q pred = Some r"
    by (rule q6_ary_search_returns [OF assms(5)])
  show "q6_to_linear_threshold P6 \<le> len \<and> q6_ary_step mem q pred b' len = Inr w \<longrightarrow>
            unat (snd w) + 1 \<le> unat len"
  proof
    assume a: "q6_to_linear_threshold P6 \<le> len \<and> q6_ary_step mem q pred b' len = Inr w"
    then have "q_ary_step 6 mem q pred b' len = Inr w" by (simp add: q6_ary_step_cascade)
    from q_ary_step_window [OF _ q6_threshold [OF assms(5)] conjunct1 [OF a] this]
    show "unat (snd w) + 1 \<le> unat len" by simp
  qed
  show "linear_search mem q pred b' (b' + n) = Inr r' \<longrightarrow> b' \<le> r' \<and> r' - b' \<le> n"
  proof
    assume "linear_search mem q pred b' (b' + n) = Inr r'"
    from linear_search_range [OF _ this] show "b' \<le> r' \<and> r' - b' \<le> n" by auto
  qed
qed

text \<open>
  The theorem with the default thresholds, on the ordinary sequence: the searches for 19
  return, each pass on the window \<open>{0, 13}\<close> leaves a shorter window, and the linear
  search from 0 over 8 elements stops at 7.
\<close>

theorem q_ary_search_terminates_always_witness:
  "2 \<le> q2_to_linear_threshold q2_ary_search_parameters \<and>
   3 \<le> q3_to_linear_threshold q3_ary_search_parameters \<and>
   4 \<le> q4_to_linear_threshold q4_ary_search_parameters \<and>
   5 \<le> q5_to_linear_threshold q5_ary_search_parameters \<and>
   6 \<le> q6_to_linear_threshold q6_ary_search_parameters \<and>
   (\<exists>r. q2_ary_search q2_ary_search_parameters ordinary_sequence 0 13 19 (<) = Some r) \<and>
   q2_to_linear_threshold q2_ary_search_parameters \<le> 13 \<and>
   q2_ary_step ordinary_sequence 19 (<) 0 13 = Inr (6, 7) \<and>
   unat (snd ((6, 7) :: nat \<times> length_t)) + 1 \<le> unat (13::length_t) \<and>
   (\<exists>r. q3_ary_search q3_ary_search_parameters ordinary_sequence 0 13 19 (<) = Some r) \<and>
   q3_to_linear_threshold q3_ary_search_parameters \<le> 13 \<and>
   q3_ary_step ordinary_sequence 19 (<) 0 13 = Inr (4, 4) \<and>
   unat (snd ((4, 4) :: nat \<times> length_t)) + 1 \<le> unat (13::length_t) \<and>
   (\<exists>r. q4_ary_search q4_ary_search_parameters ordinary_sequence 0 13 19 (<) = Some r) \<and>
   q4_to_linear_threshold q4_ary_search_parameters \<le> 13 \<and>
   q4_ary_step ordinary_sequence 19 (<) 0 13 = Inr (6, 3) \<and>
   unat (snd ((6, 3) :: nat \<times> length_t)) + 1 \<le> unat (13::length_t) \<and>
   (\<exists>r. q5_ary_search q5_ary_search_parameters ordinary_sequence 0 13 19 (<) = Some r) \<and>
   q5_to_linear_threshold q5_ary_search_parameters \<le> 13 \<and>
   q5_ary_step ordinary_sequence 19 (<) 0 13 = Inr (6, 2) \<and>
   unat (snd ((6, 2) :: nat \<times> length_t)) + 1 \<le> unat (13::length_t) \<and>
   (\<exists>r. q6_ary_search q6_ary_search_parameters ordinary_sequence 0 13 19 (<) = Some r) \<and>
   q6_to_linear_threshold q6_ary_search_parameters \<le> 13 \<and>
   q6_ary_step ordinary_sequence 19 (<) 0 13 = Inr (6, 2) \<and>
   unat (snd ((6, 2) :: nat \<times> length_t)) + 1 \<le> unat (13::length_t) \<and>
   linear_search ordinary_sequence 19 (<) 0 (0 + 8) = Inr 7 \<and>
   (0::nat) \<le> 7 \<and>
   (7::nat) - 0 \<le> 8"
proof -
  have thr: "2 \<le> q2_to_linear_threshold q2_ary_search_parameters"
    "3 \<le> q3_to_linear_threshold q3_ary_search_parameters"
    "4 \<le> q4_to_linear_threshold q4_ary_search_parameters"
    "5 \<le> q5_to_linear_threshold q5_ary_search_parameters"
    "6 \<le> q6_to_linear_threshold q6_ary_search_parameters"
    by (simp_all add: q2_ary_search_parameters_def q3_ary_search_parameters_def
        q4_ary_search_parameters_def q5_ary_search_parameters_def q6_ary_search_parameters_def)
  note T2 = q_ary_search_terminates_always [OF thr, where mem = ordinary_sequence and b = 0
      and e = 13 and q = 19 and pred = "(<)" and len = 13 and b' = 0 and w = "(6, 7)"
      and n = 8 and r' = 7]
  have ends2: "\<exists>r. q2_ary_search q2_ary_search_parameters ordinary_sequence 0 13 19 (<) = Some r"
    using T2 by blast
  have least2: "q2_to_linear_threshold q2_ary_search_parameters \<le> 13"
    by (simp add: q2_ary_search_parameters_def)
  have step2: "q2_ary_step ordinary_sequence 19 (<) 0 13 = Inr (6, 7)"
    by (simp add: q2_ary_step_def probe_def ordinary_sequence_def)
  have less2: "unat (snd ((6, 7) :: nat \<times> length_t)) + 1 \<le> unat (13::length_t)"
    using T2 least2 step2 by blast
  note T3 = q_ary_search_terminates_always [OF thr, where mem = ordinary_sequence and b = 0
      and e = 13 and q = 19 and pred = "(<)" and len = 13 and b' = 0 and w = "(4, 4)"
      and n = 8 and r' = 7]
  have ends3: "\<exists>r. q3_ary_search q3_ary_search_parameters ordinary_sequence 0 13 19 (<) = Some r"
    using T3 by blast
  have least3: "q3_to_linear_threshold q3_ary_search_parameters \<le> 13"
    by (simp add: q3_ary_search_parameters_def)
  have step3: "q3_ary_step ordinary_sequence 19 (<) 0 13 = Inr (4, 4)"
    by (simp add: q3_ary_step_def probe_def ordinary_sequence_def)
  have less3: "unat (snd ((4, 4) :: nat \<times> length_t)) + 1 \<le> unat (13::length_t)"
    using T3 least3 step3 by blast
  note T4 = q_ary_search_terminates_always [OF thr, where mem = ordinary_sequence and b = 0
      and e = 13 and q = 19 and pred = "(<)" and len = 13 and b' = 0 and w = "(6, 3)"
      and n = 8 and r' = 7]
  have ends4: "\<exists>r. q4_ary_search q4_ary_search_parameters ordinary_sequence 0 13 19 (<) = Some r"
    using T4 by blast
  have least4: "q4_to_linear_threshold q4_ary_search_parameters \<le> 13"
    by (simp add: q4_ary_search_parameters_def)
  have step4: "q4_ary_step ordinary_sequence 19 (<) 0 13 = Inr (6, 3)"
    by (simp add: q4_ary_step_def probe_def ordinary_sequence_def)
  have less4: "unat (snd ((6, 3) :: nat \<times> length_t)) + 1 \<le> unat (13::length_t)"
    using T4 least4 step4 by blast
  note T5 = q_ary_search_terminates_always [OF thr, where mem = ordinary_sequence and b = 0
      and e = 13 and q = 19 and pred = "(<)" and len = 13 and b' = 0 and w = "(6, 2)"
      and n = 8 and r' = 7]
  have ends5: "\<exists>r. q5_ary_search q5_ary_search_parameters ordinary_sequence 0 13 19 (<) = Some r"
    using T5 by blast
  have least5: "q5_to_linear_threshold q5_ary_search_parameters \<le> 13"
    by (simp add: q5_ary_search_parameters_def)
  have step5: "q5_ary_step ordinary_sequence 19 (<) 0 13 = Inr (6, 2)"
    by (simp add: q5_ary_step_def probe_def ordinary_sequence_def)
  have less5: "unat (snd ((6, 2) :: nat \<times> length_t)) + 1 \<le> unat (13::length_t)"
    using T5 least5 step5 by blast
  note T6 = q_ary_search_terminates_always [OF thr, where mem = ordinary_sequence and b = 0
      and e = 13 and q = 19 and pred = "(<)" and len = 13 and b' = 0 and w = "(6, 2)"
      and n = 8 and r' = 7]
  have ends6: "\<exists>r. q6_ary_search q6_ary_search_parameters ordinary_sequence 0 13 19 (<) = Some r"
    using T6 by blast
  have least6: "q6_to_linear_threshold q6_ary_search_parameters \<le> 13"
    by (simp add: q6_ary_search_parameters_def)
  have step6: "q6_ary_step ordinary_sequence 19 (<) 0 13 = Inr (6, 2)"
    by (simp add: q6_ary_step_def probe_def ordinary_sequence_def)
  have less6: "unat (snd ((6, 2) :: nat \<times> length_t)) + 1 \<le> unat (13::length_t)"
    using T6 least6 step6 by blast
  have scan: "linear_search ordinary_sequence 19 (<) 0 (0 + 8) = Inr 7"
    by (simp add: linear_search.simps ordinary_sequence_def)
  have stop: "(0::nat) \<le> 7" "(7::nat) - 0 \<le> 8"
    using T2 scan by blast+
  show ?thesis
    by (intro conjI)
       (rule thr ends2 least2 step2 less2 ends3 least3 step3 less3 ends4 least4
          step4 less4 ends5 least5 step5 less5 ends6 least6 step6 less6 scan stop)+
qed

subsection \<open>C9: every read is inside the range\<close>

text \<open>
  C9. For every arity \<open>Q\<close> from 2 to 6 and every range \<open>[b, e)\<close> of an array, of any
  length, with a threshold of at least \<open>Q\<close> (the default \<open>2 * Q\<close> is one) every read of
  the search is inside the range: the search returns a position \<open>b + r\<close> with
  \<open>r \<le> e - b\<close> and no fault, and so does the search on the array that holds the
  elements of the range and nothing else, where a read outside the range is a fault. In
  a pass of the loop on a window that is inside the array, each probe offset
  \<open>k * (length div Q)\<close>, for \<open>k\<close> from 1 to \<open>Q - 1\<close>, is less than the length of the
  window, no probe faults and the next window is inside the one before; and the linear
  search over a window inside the array does not fault and stops at the end of the window
  at the latest.
\<close>

theorem q_ary_search_reads_inside:
  assumes "b \<le> e" and "e \<le> length mem"
    and "2 \<le> q2_to_linear_threshold P2" and "3 \<le> q3_to_linear_threshold P3"
    and "4 \<le> q4_to_linear_threshold P4" and "5 \<le> q5_to_linear_threshold P5"
    and "6 \<le> q6_to_linear_threshold P6"
  shows "(\<exists>r. q2_ary_search P2 mem b e q pred = Some (Inr (b + r)) \<and>
              q2_ary_search P2 (slice mem b e) 0 (e - b) q pred = Some (Inr r) \<and> r \<le> e - b) \<and>
         (q2_to_linear_threshold P2 \<le> len \<longrightarrow>
            (\<forall>k\<in>set [1..<2]. k * unat (len div 2) < unat len)) \<and>
         (q2_to_linear_threshold P2 \<le> len \<and> b' + unat len \<le> length mem \<longrightarrow>
            (\<exists>w. q2_ary_step mem q pred b' len = Inr w \<and> b' \<le> fst w \<and>
                 fst w + unat (snd w) \<le> b' + unat len)) \<and>
         (\<exists>r. q3_ary_search P3 mem b e q pred = Some (Inr (b + r)) \<and>
              q3_ary_search P3 (slice mem b e) 0 (e - b) q pred = Some (Inr r) \<and> r \<le> e - b) \<and>
         (q3_to_linear_threshold P3 \<le> len \<longrightarrow>
            (\<forall>k\<in>set [1..<3]. k * unat (len div 3) < unat len)) \<and>
         (q3_to_linear_threshold P3 \<le> len \<and> b' + unat len \<le> length mem \<longrightarrow>
            (\<exists>w. q3_ary_step mem q pred b' len = Inr w \<and> b' \<le> fst w \<and>
                 fst w + unat (snd w) \<le> b' + unat len)) \<and>
         (\<exists>r. q4_ary_search P4 mem b e q pred = Some (Inr (b + r)) \<and>
              q4_ary_search P4 (slice mem b e) 0 (e - b) q pred = Some (Inr r) \<and> r \<le> e - b) \<and>
         (q4_to_linear_threshold P4 \<le> len \<longrightarrow>
            (\<forall>k\<in>set [1..<4]. k * unat (len div 4) < unat len)) \<and>
         (q4_to_linear_threshold P4 \<le> len \<and> b' + unat len \<le> length mem \<longrightarrow>
            (\<exists>w. q4_ary_step mem q pred b' len = Inr w \<and> b' \<le> fst w \<and>
                 fst w + unat (snd w) \<le> b' + unat len)) \<and>
         (\<exists>r. q5_ary_search P5 mem b e q pred = Some (Inr (b + r)) \<and>
              q5_ary_search P5 (slice mem b e) 0 (e - b) q pred = Some (Inr r) \<and> r \<le> e - b) \<and>
         (q5_to_linear_threshold P5 \<le> len \<longrightarrow>
            (\<forall>k\<in>set [1..<5]. k * unat (len div 5) < unat len)) \<and>
         (q5_to_linear_threshold P5 \<le> len \<and> b' + unat len \<le> length mem \<longrightarrow>
            (\<exists>w. q5_ary_step mem q pred b' len = Inr w \<and> b' \<le> fst w \<and>
                 fst w + unat (snd w) \<le> b' + unat len)) \<and>
         (\<exists>r. q6_ary_search P6 mem b e q pred = Some (Inr (b + r)) \<and>
              q6_ary_search P6 (slice mem b e) 0 (e - b) q pred = Some (Inr r) \<and> r \<le> e - b) \<and>
         (q6_to_linear_threshold P6 \<le> len \<longrightarrow>
            (\<forall>k\<in>set [1..<6]. k * unat (len div 6) < unat len)) \<and>
         (q6_to_linear_threshold P6 \<le> len \<and> b' + unat len \<le> length mem \<longrightarrow>
            (\<exists>w. q6_ary_step mem q pred b' len = Inr w \<and> b' \<le> fst w \<and>
                 fst w + unat (snd w) \<le> b' + unat len)) \<and>
         (b' \<le> e' \<and> e' \<le> length mem \<longrightarrow>
            (\<exists>r. linear_search mem q pred b' e' = Inr r \<and> b' \<le> r \<and> r \<le> e'))"
proof (intro conjI)
  show "\<exists>r. q2_ary_search P2 mem b e q pred = Some (Inr (b + r)) \<and>
              q2_ary_search P2 (slice mem b e) 0 (e - b) q pred = Some (Inr r) \<and> r \<le> e - b"
    unfolding q2_ary_search_def
    by (rule q_ary_search_own_range [where Q = 2, OF q2_ary_loop_unfold q2_ary_loop_unfold _
          q2_threshold [OF assms(3)] assms(1,2)]) simp
  show "q2_to_linear_threshold P2 \<le> len \<longrightarrow>
            (\<forall>k\<in>set [1..<2]. k * unat (len div 2) < unat len)"
  proof
    assume "q2_to_linear_threshold P2 \<le> len"
    from probe_offsets_inside [OF _ q2_threshold [OF assms(3)] this]
    show "\<forall>k\<in>set [1..<2]. k * unat (len div 2) < unat len" by simp
  qed
  show "q2_to_linear_threshold P2 \<le> len \<and> b' + unat len \<le> length mem \<longrightarrow>
            (\<exists>w. q2_ary_step mem q pred b' len = Inr w \<and> b' \<le> fst w \<and>
                 fst w + unat (snd w) \<le> b' + unat len)"
  proof
    assume a: "q2_to_linear_threshold P2 \<le> len \<and> b' + unat len \<le> length mem"
    from q_ary_step_inside [OF _ q2_threshold [OF assms(3)] conjunct1 [OF a] conjunct2 [OF a],
        where q = q and pred = pred]
    show "\<exists>w. q2_ary_step mem q pred b' len = Inr w \<and> b' \<le> fst w \<and>
                 fst w + unat (snd w) \<le> b' + unat len"
      by (simp add: q2_ary_step_cascade)
  qed
  show "\<exists>r. q3_ary_search P3 mem b e q pred = Some (Inr (b + r)) \<and>
              q3_ary_search P3 (slice mem b e) 0 (e - b) q pred = Some (Inr r) \<and> r \<le> e - b"
    unfolding q3_ary_search_def
    by (rule q_ary_search_own_range [where Q = 3, OF q3_ary_loop_unfold q3_ary_loop_unfold _
          q3_threshold [OF assms(4)] assms(1,2)]) simp
  show "q3_to_linear_threshold P3 \<le> len \<longrightarrow>
            (\<forall>k\<in>set [1..<3]. k * unat (len div 3) < unat len)"
  proof
    assume "q3_to_linear_threshold P3 \<le> len"
    from probe_offsets_inside [OF _ q3_threshold [OF assms(4)] this]
    show "\<forall>k\<in>set [1..<3]. k * unat (len div 3) < unat len" by simp
  qed
  show "q3_to_linear_threshold P3 \<le> len \<and> b' + unat len \<le> length mem \<longrightarrow>
            (\<exists>w. q3_ary_step mem q pred b' len = Inr w \<and> b' \<le> fst w \<and>
                 fst w + unat (snd w) \<le> b' + unat len)"
  proof
    assume a: "q3_to_linear_threshold P3 \<le> len \<and> b' + unat len \<le> length mem"
    from q_ary_step_inside [OF _ q3_threshold [OF assms(4)] conjunct1 [OF a] conjunct2 [OF a],
        where q = q and pred = pred]
    show "\<exists>w. q3_ary_step mem q pred b' len = Inr w \<and> b' \<le> fst w \<and>
                 fst w + unat (snd w) \<le> b' + unat len"
      by (simp add: q3_ary_step_cascade)
  qed
  show "\<exists>r. q4_ary_search P4 mem b e q pred = Some (Inr (b + r)) \<and>
              q4_ary_search P4 (slice mem b e) 0 (e - b) q pred = Some (Inr r) \<and> r \<le> e - b"
    unfolding q4_ary_search_def
    by (rule q_ary_search_own_range [where Q = 4, OF q4_ary_loop_unfold q4_ary_loop_unfold _
          q4_threshold [OF assms(5)] assms(1,2)]) simp
  show "q4_to_linear_threshold P4 \<le> len \<longrightarrow>
            (\<forall>k\<in>set [1..<4]. k * unat (len div 4) < unat len)"
  proof
    assume "q4_to_linear_threshold P4 \<le> len"
    from probe_offsets_inside [OF _ q4_threshold [OF assms(5)] this]
    show "\<forall>k\<in>set [1..<4]. k * unat (len div 4) < unat len" by simp
  qed
  show "q4_to_linear_threshold P4 \<le> len \<and> b' + unat len \<le> length mem \<longrightarrow>
            (\<exists>w. q4_ary_step mem q pred b' len = Inr w \<and> b' \<le> fst w \<and>
                 fst w + unat (snd w) \<le> b' + unat len)"
  proof
    assume a: "q4_to_linear_threshold P4 \<le> len \<and> b' + unat len \<le> length mem"
    from q_ary_step_inside [OF _ q4_threshold [OF assms(5)] conjunct1 [OF a] conjunct2 [OF a],
        where q = q and pred = pred]
    show "\<exists>w. q4_ary_step mem q pred b' len = Inr w \<and> b' \<le> fst w \<and>
                 fst w + unat (snd w) \<le> b' + unat len"
      by (simp add: q4_ary_step_cascade)
  qed
  show "\<exists>r. q5_ary_search P5 mem b e q pred = Some (Inr (b + r)) \<and>
              q5_ary_search P5 (slice mem b e) 0 (e - b) q pred = Some (Inr r) \<and> r \<le> e - b"
    unfolding q5_ary_search_def
    by (rule q_ary_search_own_range [where Q = 5, OF q5_ary_loop_unfold q5_ary_loop_unfold _
          q5_threshold [OF assms(6)] assms(1,2)]) simp
  show "q5_to_linear_threshold P5 \<le> len \<longrightarrow>
            (\<forall>k\<in>set [1..<5]. k * unat (len div 5) < unat len)"
  proof
    assume "q5_to_linear_threshold P5 \<le> len"
    from probe_offsets_inside [OF _ q5_threshold [OF assms(6)] this]
    show "\<forall>k\<in>set [1..<5]. k * unat (len div 5) < unat len" by simp
  qed
  show "q5_to_linear_threshold P5 \<le> len \<and> b' + unat len \<le> length mem \<longrightarrow>
            (\<exists>w. q5_ary_step mem q pred b' len = Inr w \<and> b' \<le> fst w \<and>
                 fst w + unat (snd w) \<le> b' + unat len)"
  proof
    assume a: "q5_to_linear_threshold P5 \<le> len \<and> b' + unat len \<le> length mem"
    from q_ary_step_inside [OF _ q5_threshold [OF assms(6)] conjunct1 [OF a] conjunct2 [OF a],
        where q = q and pred = pred]
    show "\<exists>w. q5_ary_step mem q pred b' len = Inr w \<and> b' \<le> fst w \<and>
                 fst w + unat (snd w) \<le> b' + unat len"
      by (simp add: q5_ary_step_cascade)
  qed
  show "\<exists>r. q6_ary_search P6 mem b e q pred = Some (Inr (b + r)) \<and>
              q6_ary_search P6 (slice mem b e) 0 (e - b) q pred = Some (Inr r) \<and> r \<le> e - b"
    unfolding q6_ary_search_def
    by (rule q_ary_search_own_range [where Q = 6, OF q6_ary_loop_unfold q6_ary_loop_unfold _
          q6_threshold [OF assms(7)] assms(1,2)]) simp
  show "q6_to_linear_threshold P6 \<le> len \<longrightarrow>
            (\<forall>k\<in>set [1..<6]. k * unat (len div 6) < unat len)"
  proof
    assume "q6_to_linear_threshold P6 \<le> len"
    from probe_offsets_inside [OF _ q6_threshold [OF assms(7)] this]
    show "\<forall>k\<in>set [1..<6]. k * unat (len div 6) < unat len" by simp
  qed
  show "q6_to_linear_threshold P6 \<le> len \<and> b' + unat len \<le> length mem \<longrightarrow>
            (\<exists>w. q6_ary_step mem q pred b' len = Inr w \<and> b' \<le> fst w \<and>
                 fst w + unat (snd w) \<le> b' + unat len)"
  proof
    assume a: "q6_to_linear_threshold P6 \<le> len \<and> b' + unat len \<le> length mem"
    from q_ary_step_inside [OF _ q6_threshold [OF assms(7)] conjunct1 [OF a] conjunct2 [OF a],
        where q = q and pred = pred]
    show "\<exists>w. q6_ary_step mem q pred b' len = Inr w \<and> b' \<le> fst w \<and>
                 fst w + unat (snd w) \<le> b' + unat len"
      by (simp add: q6_ary_step_cascade)
  qed
  show "b' \<le> e' \<and> e' \<le> length mem \<longrightarrow>
            (\<exists>r. linear_search mem q pred b' e' = Inr r \<and> b' \<le> r \<and> r \<le> e')"
  proof
    assume a: "b' \<le> e' \<and> e' \<le> length mem"
    from linear_search_boundary [OF conjunct1 [OF a] conjunct2 [OF a], of q pred]
    show "\<exists>r. linear_search mem q pred b' e' = Inr r \<and> b' \<le> r \<and> r \<le> e'"
      by blast
  qed
qed

text \<open>
  The theorem with the default thresholds, on the range \<open>[0, 13)\<close> of the ordinary
  sequence and on the window \<open>{0, 13}\<close>.
\<close>

theorem q_ary_search_reads_inside_witness:
  "(0::nat) \<le> 13 \<and> 13 \<le> length ordinary_sequence \<and>
   2 \<le> q2_to_linear_threshold q2_ary_search_parameters \<and>
   3 \<le> q3_to_linear_threshold q3_ary_search_parameters \<and>
   4 \<le> q4_to_linear_threshold q4_ary_search_parameters \<and>
   5 \<le> q5_to_linear_threshold q5_ary_search_parameters \<and>
   6 \<le> q6_to_linear_threshold q6_ary_search_parameters \<and>
   (\<exists>r. q2_ary_search q2_ary_search_parameters ordinary_sequence 0 13 19 (<)
          = Some (Inr (0 + r)) \<and>
        q2_ary_search q2_ary_search_parameters (slice ordinary_sequence 0 13) 0 (13 - 0) 19 (<)
          = Some (Inr r) \<and> r \<le> 13 - 0) \<and>
   (q2_to_linear_threshold q2_ary_search_parameters \<le> 13 \<and>
    0 + unat (13::length_t) \<le> length ordinary_sequence) \<and>
   1 * unat ((13::length_t) div 2) < unat (13::length_t) \<and>
   (\<exists>w. q2_ary_step ordinary_sequence 19 (<) 0 13 = Inr w \<and> 0 \<le> fst w \<and>
        fst w + unat (snd w) \<le> 0 + unat (13::length_t)) \<and>
   (\<exists>r. q3_ary_search q3_ary_search_parameters ordinary_sequence 0 13 19 (<)
          = Some (Inr (0 + r)) \<and>
        q3_ary_search q3_ary_search_parameters (slice ordinary_sequence 0 13) 0 (13 - 0) 19 (<)
          = Some (Inr r) \<and> r \<le> 13 - 0) \<and>
   (q3_to_linear_threshold q3_ary_search_parameters \<le> 13 \<and>
    0 + unat (13::length_t) \<le> length ordinary_sequence) \<and>
   2 * unat ((13::length_t) div 3) < unat (13::length_t) \<and>
   (\<exists>w. q3_ary_step ordinary_sequence 19 (<) 0 13 = Inr w \<and> 0 \<le> fst w \<and>
        fst w + unat (snd w) \<le> 0 + unat (13::length_t)) \<and>
   (\<exists>r. q4_ary_search q4_ary_search_parameters ordinary_sequence 0 13 19 (<)
          = Some (Inr (0 + r)) \<and>
        q4_ary_search q4_ary_search_parameters (slice ordinary_sequence 0 13) 0 (13 - 0) 19 (<)
          = Some (Inr r) \<and> r \<le> 13 - 0) \<and>
   (q4_to_linear_threshold q4_ary_search_parameters \<le> 13 \<and>
    0 + unat (13::length_t) \<le> length ordinary_sequence) \<and>
   3 * unat ((13::length_t) div 4) < unat (13::length_t) \<and>
   (\<exists>w. q4_ary_step ordinary_sequence 19 (<) 0 13 = Inr w \<and> 0 \<le> fst w \<and>
        fst w + unat (snd w) \<le> 0 + unat (13::length_t)) \<and>
   (\<exists>r. q5_ary_search q5_ary_search_parameters ordinary_sequence 0 13 19 (<)
          = Some (Inr (0 + r)) \<and>
        q5_ary_search q5_ary_search_parameters (slice ordinary_sequence 0 13) 0 (13 - 0) 19 (<)
          = Some (Inr r) \<and> r \<le> 13 - 0) \<and>
   (q5_to_linear_threshold q5_ary_search_parameters \<le> 13 \<and>
    0 + unat (13::length_t) \<le> length ordinary_sequence) \<and>
   4 * unat ((13::length_t) div 5) < unat (13::length_t) \<and>
   (\<exists>w. q5_ary_step ordinary_sequence 19 (<) 0 13 = Inr w \<and> 0 \<le> fst w \<and>
        fst w + unat (snd w) \<le> 0 + unat (13::length_t)) \<and>
   (\<exists>r. q6_ary_search q6_ary_search_parameters ordinary_sequence 0 13 19 (<)
          = Some (Inr (0 + r)) \<and>
        q6_ary_search q6_ary_search_parameters (slice ordinary_sequence 0 13) 0 (13 - 0) 19 (<)
          = Some (Inr r) \<and> r \<le> 13 - 0) \<and>
   (q6_to_linear_threshold q6_ary_search_parameters \<le> 13 \<and>
    0 + unat (13::length_t) \<le> length ordinary_sequence) \<and>
   5 * unat ((13::length_t) div 6) < unat (13::length_t) \<and>
   (\<exists>w. q6_ary_step ordinary_sequence 19 (<) 0 13 = Inr w \<and> 0 \<le> fst w \<and>
        fst w + unat (snd w) \<le> 0 + unat (13::length_t)) \<and>
   ((0::nat) \<le> 8 \<and> 8 \<le> length ordinary_sequence) \<and>
   (\<exists>r. linear_search ordinary_sequence 19 (<) 0 8 = Inr r \<and> 0 \<le> r \<and> r \<le> 8)"
proof -
  have range: "(0::nat) \<le> 13" "13 \<le> length ordinary_sequence"
    by (simp_all add: ordinary_sequence_def)
  have thr: "2 \<le> q2_to_linear_threshold q2_ary_search_parameters"
    "3 \<le> q3_to_linear_threshold q3_ary_search_parameters"
    "4 \<le> q4_to_linear_threshold q4_ary_search_parameters"
    "5 \<le> q5_to_linear_threshold q5_ary_search_parameters"
    "6 \<le> q6_to_linear_threshold q6_ary_search_parameters"
    by (simp_all add: q2_ary_search_parameters_def q3_ary_search_parameters_def
        q4_ary_search_parameters_def q5_ary_search_parameters_def q6_ary_search_parameters_def)
  have w2: "q2_to_linear_threshold q2_ary_search_parameters \<le> 13 \<and>
      0 + unat (13::length_t) \<le> length ordinary_sequence"
    by (simp add: q2_ary_search_parameters_def ordinary_sequence_def)
  have w3: "q3_to_linear_threshold q3_ary_search_parameters \<le> 13 \<and>
      0 + unat (13::length_t) \<le> length ordinary_sequence"
    by (simp add: q3_ary_search_parameters_def ordinary_sequence_def)
  have w4: "q4_to_linear_threshold q4_ary_search_parameters \<le> 13 \<and>
      0 + unat (13::length_t) \<le> length ordinary_sequence"
    by (simp add: q4_ary_search_parameters_def ordinary_sequence_def)
  have w5: "q5_to_linear_threshold q5_ary_search_parameters \<le> 13 \<and>
      0 + unat (13::length_t) \<le> length ordinary_sequence"
    by (simp add: q5_ary_search_parameters_def ordinary_sequence_def)
  have w6: "q6_to_linear_threshold q6_ary_search_parameters \<le> 13 \<and>
      0 + unat (13::length_t) \<le> length ordinary_sequence"
    by (simp add: q6_ary_search_parameters_def ordinary_sequence_def)
  have scan: "(0::nat) \<le> 8 \<and> 8 \<le> length ordinary_sequence"
    by (simp add: ordinary_sequence_def)
  note t = q_ary_search_reads_inside [OF range thr, where q = 19 and pred = "(<)"
      and len = 13 and b' = 0 and e' = 8]
  from t range thr w2 w3 w4 w5 w6 scan show ?thesis
    by (elim conjE, intro conjI) (assumption | simp)+
qed

subsection \<open>C10: the bounds are ordered and inside the range\<close>

text \<open>
  C10. For every arity \<open>Q\<close> from 2 to 6, every sorted range \<open>[b, e)\<close> of an array and
  every query \<open>q\<close>, with a threshold of at least \<open>Q\<close> (the default \<open>2 * Q\<close> is one) the
  lower bound \<open>l\<close> and the upper bound \<open>u\<close> are returned and
  \<open>b \<le> l \<le> u \<le> e\<close>. The range may have any length.
\<close>

theorem q_ary_bounds_ordered:
  fixes mem :: "('a::linorder) list"
  assumes "sorted (slice mem b e)" and "b \<le> e" and "e \<le> length mem"
    and "2 \<le> q2_to_linear_threshold P2" and "3 \<le> q3_to_linear_threshold P3"
    and "4 \<le> q4_to_linear_threshold P4" and "5 \<le> q5_to_linear_threshold P5"
    and "6 \<le> q6_to_linear_threshold P6"
  shows "(\<exists>l u. q2_ary_lower_bound P2 mem b e q = Some (Inr l) \<and>
                q2_ary_upper_bound P2 mem b e q = Some (Inr u) \<and> b \<le> l \<and> l \<le> u \<and> u \<le> e) \<and>
         (\<exists>l u. q3_ary_lower_bound P3 mem b e q = Some (Inr l) \<and>
                q3_ary_upper_bound P3 mem b e q = Some (Inr u) \<and> b \<le> l \<and> l \<le> u \<and> u \<le> e) \<and>
         (\<exists>l u. q4_ary_lower_bound P4 mem b e q = Some (Inr l) \<and>
                q4_ary_upper_bound P4 mem b e q = Some (Inr u) \<and> b \<le> l \<and> l \<le> u \<and> u \<le> e) \<and>
         (\<exists>l u. q5_ary_lower_bound P5 mem b e q = Some (Inr l) \<and>
                q5_ary_upper_bound P5 mem b e q = Some (Inr u) \<and> b \<le> l \<and> l \<le> u \<and> u \<le> e) \<and>
         (\<exists>l u. q6_ary_lower_bound P6 mem b e q = Some (Inr l) \<and>
                q6_ary_upper_bound P6 mem b e q = Some (Inr u) \<and> b \<le> l \<and> l \<le> u \<and> u \<le> e)"
proof (intro conjI)
  show "\<exists>l u. q2_ary_lower_bound P2 mem b e q = Some (Inr l) \<and>
                q2_ary_upper_bound P2 mem b e q = Some (Inr u) \<and> b \<le> l \<and> l \<le> u \<and> u \<le> e"
    unfolding q2_ary_lower_bound_def q2_ary_upper_bound_def
    by (rule bounds_ordered [OF q2_ary_search_window [OF assms(4) assms(2,3)]
          q2_ary_search_window [OF assms(4) assms(2,3)] assms(1,2,3)])
  show "\<exists>l u. q3_ary_lower_bound P3 mem b e q = Some (Inr l) \<and>
                q3_ary_upper_bound P3 mem b e q = Some (Inr u) \<and> b \<le> l \<and> l \<le> u \<and> u \<le> e"
    unfolding q3_ary_lower_bound_def q3_ary_upper_bound_def
    by (rule bounds_ordered [OF q3_ary_search_window [OF assms(5) assms(2,3)]
          q3_ary_search_window [OF assms(5) assms(2,3)] assms(1,2,3)])
  show "\<exists>l u. q4_ary_lower_bound P4 mem b e q = Some (Inr l) \<and>
                q4_ary_upper_bound P4 mem b e q = Some (Inr u) \<and> b \<le> l \<and> l \<le> u \<and> u \<le> e"
    unfolding q4_ary_lower_bound_def q4_ary_upper_bound_def
    by (rule bounds_ordered [OF q4_ary_search_window [OF assms(6) assms(2,3)]
          q4_ary_search_window [OF assms(6) assms(2,3)] assms(1,2,3)])
  show "\<exists>l u. q5_ary_lower_bound P5 mem b e q = Some (Inr l) \<and>
                q5_ary_upper_bound P5 mem b e q = Some (Inr u) \<and> b \<le> l \<and> l \<le> u \<and> u \<le> e"
    unfolding q5_ary_lower_bound_def q5_ary_upper_bound_def
    by (rule bounds_ordered [OF q5_ary_search_window [OF assms(7) assms(2,3)]
          q5_ary_search_window [OF assms(7) assms(2,3)] assms(1,2,3)])
  show "\<exists>l u. q6_ary_lower_bound P6 mem b e q = Some (Inr l) \<and>
                q6_ary_upper_bound P6 mem b e q = Some (Inr u) \<and> b \<le> l \<and> l \<le> u \<and> u \<le> e"
    unfolding q6_ary_lower_bound_def q6_ary_upper_bound_def
    by (rule bounds_ordered [OF q6_ary_search_window [OF assms(8) assms(2,3)]
          q6_ary_search_window [OF assms(8) assms(2,3)] assms(1,2,3)])
qed

text \<open>The theorem at the fragmented sequence and the query 12, with the default thresholds.\<close>

theorem q_ary_bounds_ordered_witness:
  "sorted (slice fragmented_sequence 0 13) \<and>
   (0::nat) \<le> 13 \<and> 13 \<le> length fragmented_sequence \<and>
   2 \<le> q2_to_linear_threshold q2_ary_search_parameters \<and>
   3 \<le> q3_to_linear_threshold q3_ary_search_parameters \<and>
   4 \<le> q4_to_linear_threshold q4_ary_search_parameters \<and>
   5 \<le> q5_to_linear_threshold q5_ary_search_parameters \<and>
   6 \<le> q6_to_linear_threshold q6_ary_search_parameters \<and>
   (\<exists>l u. q2_ary_lower_bound q2_ary_search_parameters fragmented_sequence 0 13 12 = Some (Inr l) \<and>
          q2_ary_upper_bound q2_ary_search_parameters fragmented_sequence 0 13 12 = Some (Inr u) \<and>
          0 \<le> l \<and> l \<le> u \<and> u \<le> 13) \<and>
   (\<exists>l u. q3_ary_lower_bound q3_ary_search_parameters fragmented_sequence 0 13 12 = Some (Inr l) \<and>
          q3_ary_upper_bound q3_ary_search_parameters fragmented_sequence 0 13 12 = Some (Inr u) \<and>
          0 \<le> l \<and> l \<le> u \<and> u \<le> 13) \<and>
   (\<exists>l u. q4_ary_lower_bound q4_ary_search_parameters fragmented_sequence 0 13 12 = Some (Inr l) \<and>
          q4_ary_upper_bound q4_ary_search_parameters fragmented_sequence 0 13 12 = Some (Inr u) \<and>
          0 \<le> l \<and> l \<le> u \<and> u \<le> 13) \<and>
   (\<exists>l u. q5_ary_lower_bound q5_ary_search_parameters fragmented_sequence 0 13 12 = Some (Inr l) \<and>
          q5_ary_upper_bound q5_ary_search_parameters fragmented_sequence 0 13 12 = Some (Inr u) \<and>
          0 \<le> l \<and> l \<le> u \<and> u \<le> 13) \<and>
   (\<exists>l u. q6_ary_lower_bound q6_ary_search_parameters fragmented_sequence 0 13 12 = Some (Inr l) \<and>
          q6_ary_upper_bound q6_ary_search_parameters fragmented_sequence 0 13 12 = Some (Inr u) \<and>
          0 \<le> l \<and> l \<le> u \<and> u \<le> 13)"
proof -
  have srt: "sorted (slice fragmented_sequence 0 13)"
    by (simp add: slice_def fragmented_sequence_def)
  have range: "(0::nat) \<le> 13" "13 \<le> length fragmented_sequence"
    by (simp_all add: fragmented_sequence_def)
  have thr: "2 \<le> q2_to_linear_threshold q2_ary_search_parameters"
    "3 \<le> q3_to_linear_threshold q3_ary_search_parameters"
    "4 \<le> q4_to_linear_threshold q4_ary_search_parameters"
    "5 \<le> q5_to_linear_threshold q5_ary_search_parameters"
    "6 \<le> q6_to_linear_threshold q6_ary_search_parameters"
    by (simp_all add: q2_ary_search_parameters_def q3_ary_search_parameters_def
        q4_ary_search_parameters_def q5_ary_search_parameters_def q6_ary_search_parameters_def)
  from q_ary_bounds_ordered [OF srt range thr, of 12] srt range thr
  show ?thesis by blast
qed

end
